theory Spec2Isabelle
  imports Main "HOL-Library.Sublist" "HOL-Library.AList"
begin

section \<open>JavaScript values, errors and string primitives\<close>

text \<open>
  Documents read from disk (YAML templates, JSON instances) and the inputs of an instance are
  untyped JavaScript values. Objects are association lists in property enumeration order;
  their keys are distinct. Numbers are modelled as integers. A string is the list of its
  UTF-16 code units, and a HOL character holds a code unit below 256: the theory speaks about
  the strings made of such code units.
\<close>

datatype jsval = JNull | JBool bool | JNum int | JStr string
  | JArr "jsval list" | JObj "(string \<times> jsval) list"

text \<open>
  Every failure in the sources is \<^verbatim>\<open>throw new Error(message)\<close> or an error raised by
  \<^verbatim>\<open>node:fs\<close>. The constructors name the throw site; each carries the message text.
  \<open>StorageError\<close> is the raw error of the file system (code and path), \<open>YamlError\<close> the raw
  error of the YAML parser. \<open>Unmodelled\<close> is no error of the program: it marks a schema that
  lies outside the part of Ajv described below, where the theory says nothing about what the
  program does.
\<close>

datatype error =
    NotFound string
  | ValidationError string
  | CycleError string
  | StateError string
  | StorageError string string
  | YamlError string
  | OtherError string
  | Unmodelled

fun digit_char :: "nat \<Rightarrow> char" where
  "digit_char n = ''0123456789'' ! n"

function string_of_nat :: "nat \<Rightarrow> string" where
  "string_of_nat n = (if n < 10 then [digit_char n] else string_of_nat (n div 10) @ [digit_char (n mod 10)])"
  by pat_completeness auto
termination
  by (relation "measure id") auto

declare string_of_nat.simps [simp del]

definition String_number :: "int \<Rightarrow> string" where
  "String_number i = (if i < 0 then ''-'' @ string_of_nat (nat (- i)) else string_of_nat (nat i))"

text \<open>\<open>isRecord\<close> of \<^verbatim>\<open>templateStore.ts\<close> and \<^verbatim>\<open>profileStore.ts\<close>: an object that is no array.\<close>

fun isRecord :: "jsval \<Rightarrow> bool" where
  "isRecord (JObj props) = True"
| "isRecord v = False"

text \<open>The strings among the elements of an array, in order.\<close>

fun strings_of :: "jsval list \<Rightarrow> string list" where
  "strings_of [] = []"
| "strings_of (JStr s # vs) = s # strings_of vs"
| "strings_of (v # vs) = strings_of vs"

text \<open>\<^verbatim>\<open>Array.prototype.join\<close> and \<^verbatim>\<open>String.prototype.split\<close> with a one-character separator.\<close>

fun join :: "string \<Rightarrow> string list \<Rightarrow> string" where
  "join sep [] = []"
| "join sep [x] = x"
| "join sep (x # y # ys) = x @ sep @ join sep (y # ys)"

fun split :: "char \<Rightarrow> string \<Rightarrow> string list" where
  "split sep [] = [[]]"
| "split sep (c # cs) =
     (if c = sep then [] # split sep cs
      else (case split sep cs of [] \<Rightarrow> [[c]] | w # ws \<Rightarrow> (c # w) # ws))"

text \<open>
  \<^verbatim>\<open>String.prototype.replaceAll(searchString, replaceValue)\<close> with a string pattern
  (ECMA-262, 22.1.3.20). The matches are the leftmost non-overlapping occurrences of the
  pattern; each is replaced by \<open>GetSubstitution\<close> of the replacement text, in which
  \<^verbatim>\<open>$$\<close> stands for a dollar sign, \<^verbatim>\<open>$&\<close> for the matched text, \<^verbatim>\<open>$`\<close> for the part of
  the subject before the match and \<^verbatim>\<open>$'\<close> for the part after it. With a string pattern there
  are no capture groups, so every other use of the dollar sign is literal.
\<close>

fun getSubstitution :: "string \<Rightarrow> string \<Rightarrow> string \<Rightarrow> string \<Rightarrow> string" where
  "getSubstitution matched pre post [] = []"
| "getSubstitution matched pre post [c] = [c]"
| "getSubstitution matched pre post (c # d # cs) =
     (if c = CHR ''$'' then
        (if d = CHR ''$'' then CHR ''$'' # getSubstitution matched pre post cs
         else if d = CHR ''&'' then matched @ getSubstitution matched pre post cs
         else if d = CHR 0x60 then pre @ getSubstitution matched pre post cs
         else if d = CHR 0x27 then post @ getSubstitution matched pre post cs
         else c # getSubstitution matched pre post (d # cs))
      else c # getSubstitution matched pre post (d # cs))"

function replaceAll_from :: "string \<Rightarrow> string \<Rightarrow> string \<Rightarrow> string \<Rightarrow> string" where
  "replaceAll_from pre rest pat rep =
     (if prefix pat rest then
        getSubstitution pat pre (drop (length pat) rest) rep @
        (if pat = [] then
           (case rest of [] \<Rightarrow> [] | c # cs \<Rightarrow> c # replaceAll_from (pre @ [c]) cs pat rep)
         else replaceAll_from (pre @ pat) (drop (length pat) rest) pat rep)
      else (case rest of [] \<Rightarrow> [] | c # cs \<Rightarrow> c # replaceAll_from (pre @ [c]) cs pat rep))"
  by pat_completeness auto
termination
  by (relation "measure (\<lambda>(pre, rest, pat, rep). length rest)") (auto simp: prefix_def)

declare replaceAll_from.simps [simp del]

definition replaceAll :: "string \<Rightarrow> string \<Rightarrow> string \<Rightarrow> string" where
  "replaceAll s pat rep = replaceAll_from [] s pat rep"

section \<open>taskExecutor.ts: variable substitution\<close>

text \<open>
  \<open>deriveConvenienceVariables\<close>: when \<open>inputs.endpoint_path\<close> is a string, the path is split
  at \<open>/\<close>, the segments that are empty or contain \<open>:\<close> or \<open>?\<close> are dropped, and the last
  remaining segment, if there is one, becomes \<open>resource\<close>.
\<close>

definition path_segments :: "string \<Rightarrow> string list" where
  "path_segments path =
     filter (\<lambda>s. s \<noteq> [] \<and> CHR '':'' \<notin> set s \<and> CHR ''?'' \<notin> set s) (split CHR ''/'' path)"

definition deriveConvenienceVariables :: "(string \<times> jsval) list \<Rightarrow> (string \<times> string) list" where
  "deriveConvenienceVariables inputs =
     (case map_of inputs ''endpoint_path'' of
        Some (JStr path) \<Rightarrow>
          (let segments = path_segments path
           in if length segments > 0 then [(''resource'', last segments)] else [])
      | _ \<Rightarrow> [])"

text \<open>
  \<^verbatim>\<open>{ ...inputs, ...derivedVars }\<close>: the properties of \<open>inputs\<close> in their order, then each
  derived variable assigned: an existing key keeps its place and takes the new value, a new
  key goes to the end.
\<close>

definition allVars :: "(string \<times> jsval) list \<Rightarrow> (string \<times> jsval) list" where
  "allVars inputs =
     fold (\<lambda>(k, v) vars. AList.update k (JStr v) vars) (deriveConvenienceVariables inputs) inputs"

definition placeholder :: "string \<Rightarrow> string" where
  "placeholder key = ''{'' @ key @ ''}''"

text \<open>
  The text put in for a value. \<open>stringify\<close> stands for \<^verbatim>\<open>JSON.stringify(value, null, 2)\<close>, which
  the source applies to arrays and objects.
\<close>

fun replacement :: "(jsval \<Rightarrow> string) \<Rightarrow> jsval \<Rightarrow> string" where
  "replacement stringify (JStr s) = s"
| "replacement stringify (JNum n) = String_number n"
| "replacement stringify (JBool b) = (if b then ''true'' else ''false'')"
| "replacement stringify JNull = []"
| "replacement stringify v = stringify v"

definition substituteVariables ::
  "(jsval \<Rightarrow> string) \<Rightarrow> string \<Rightarrow> (string \<times> jsval) list \<Rightarrow> string" where
  "substituteVariables stringify template inputs =
     fold (\<lambda>(key, value) result. replaceAll result (placeholder key) (replacement stringify value))
       (allVars inputs) template"

text \<open>
  For comparison only: substitution of all variables at once, in a single pass over the
  template, where the text put in for a placeholder is not looked at again.
\<close>

fun first_match :: "(jsval \<Rightarrow> string) \<Rightarrow> (string \<times> jsval) list \<Rightarrow> string \<Rightarrow> (string \<times> string) option" where
  "first_match stringify [] rest = None"
| "first_match stringify ((k, v) # vars) rest =
     (if prefix (placeholder k) rest then Some (placeholder k, replacement stringify v)
      else first_match stringify vars rest)"

lemma first_match_length:
  "first_match stringify vars rest = Some (p, r) \<Longrightarrow> 0 < length p"
  by (induction vars) (auto simp: placeholder_def split: if_splits)

function simultaneous_substitution ::
  "(jsval \<Rightarrow> string) \<Rightarrow> (string \<times> jsval) list \<Rightarrow> string \<Rightarrow> string" where
  "simultaneous_substitution stringify vars [] = []"
| "simultaneous_substitution stringify vars (c # cs) =
     (case first_match stringify vars (c # cs) of
        Some (p, r) \<Rightarrow> r @ simultaneous_substitution stringify vars (drop (length p) (c # cs))
      | None \<Rightarrow> c # simultaneous_substitution stringify vars cs)"
  by pat_completeness auto

termination
  by (relation "measure (\<lambda>(f, vars, s). length s)") (auto dest: first_match_length)

section \<open>taskExecutor.ts: executing a plan\<close>

datatype plan_status = Pending | Executing | Completed | Failed

fun status_name :: "plan_status \<Rightarrow> string" where
  "status_name Pending = ''pending''"
| "status_name Executing = ''executing''"
| "status_name Completed = ''completed''"
| "status_name Failed = ''failed''"

record plan_step =
  step_id :: string
  instruction :: string

record plan_check =
  check_id :: string
  command :: string

record ExecutionPlan =
  plan_id :: string
  instance_id :: string
  project_slug :: string
  template_id :: string
  template_version :: nat
  created_at :: string
  steps :: "plan_step list"
  verification :: "plan_check list"
  domain_framework :: "string option"
  status :: plan_status

text \<open>
  The plans directory: the plan stored under \<^verbatim>\<open><planId>.yaml\<close>, if that file exists.
  \<open>writeFile\<close> replaces the file.
\<close>

type_synonym plan_files = "string \<rightharpoonup> ExecutionPlan"

definition planPath :: "string \<Rightarrow> string" where
  "planPath planId = planId @ ''.yaml''"

text \<open>
  The body of the \<^verbatim>\<open>try\<close> block up to the final write: one result line per step, then one
  per verification entry. Nothing in it raises, so it always yields \<open>Inr\<close>; the \<^verbatim>\<open>catch\<close>
  branch of \<open>executeTask\<close> is kept as the source has it.
\<close>

definition run_plan :: "ExecutionPlan \<Rightarrow> error + string list" where
  "run_plan plan =
     Inr (map (\<lambda>step. ''[Step '' @ step_id step @ ''] '' @ instruction step) (steps plan) @
          map (\<lambda>verify. ''[Verify '' @ check_id verify @ ''] '' @ command verify) (verification plan))"

definition executeTask ::
  "plan_files \<Rightarrow> string \<Rightarrow> (error + bool \<times> ExecutionPlan \<times> string list) \<times> plan_files" where
  "executeTask files planId =
     (case files planId of
        None \<Rightarrow> (Inl (StorageError ''ENOENT'' (planPath planId)), files)
      | Some plan \<Rightarrow>
          if status plan \<noteq> Pending then
            (Inl (StateError (''Cannot execute plan with status: '' @ status_name (status plan))), files)
          else
            let plan1 = plan\<lparr>status := Executing\<rparr>;
                files1 = files(planId \<mapsto> plan1)
            in (case run_plan plan1 of
                  Inr results \<Rightarrow>
                    let plan2 = plan1\<lparr>status := Completed\<rparr>
                    in (Inr (True, plan2, results), files1(planId \<mapsto> plan2))
                | Inl err \<Rightarrow>
                    let plan2 = plan1\<lparr>status := Failed\<rparr>
                    in (Inl err, files1(planId \<mapsto> plan2))))"

definition getPlan :: "plan_files \<Rightarrow> string \<Rightarrow> error + ExecutionPlan" where
  "getPlan files planId =
     (case files planId of
        None \<Rightarrow> Inl (StorageError ''ENOENT'' (planPath planId))
      | Some plan \<Rightarrow> Inr plan)"

section \<open>schema.ts: validation with Ajv\<close>

text \<open>
  \<open>createAjv\<close> builds the validator with \<open>allErrors\<close> and \<open>allowUnionTypes\<close> switched on;
  every other option keeps its default, so the validator is in strict mode and looks
  properties up with \<^verbatim>\<open>data[name] !== undefined\<close>. Ajv itself is a dependency of the
  repository. This section describes what Ajv 8 does with the draft-07 schemas that are built
  from the keywords \<open>type\<close> (a type name or a list of them), \<open>enum\<close> (of numbers, strings,
  booleans and \<open>null\<close>), \<open>minimum\<close>, \<open>minLength\<close>, \<open>minItems\<close>, \<open>items\<close> (one schema),
  \<open>required\<close>, \<open>properties\<close>, \<open>additionalProperties\<close> (a boolean), \<open>title\<close> and
  \<open>description\<close>: the schemas of the repository and the usual input schemas of templates.

  \<^item> Compilation comes first. A keyword that Ajv does not know makes \<^verbatim>\<open>ajv.compile\<close> throw
    \<^verbatim>\<open>strict mode: unknown keyword\<close>. A schema with a keyword of Ajv that is not in the list
    above, or with a value that the list excludes, gets the result \<open>Unmodelled\<close>.
  \<^item> A property counts as present when the object has it or inherits it from
    \<^verbatim>\<open>Object.prototype\<close>: \<open>required\<close> never reports an inherited name as missing. Property
    schemas for inherited names are left to \<open>Unmodelled\<close>.
  \<^item> The errors come in the order of Ajv's generated code: the type error first, unless the
    schema names one type and has keywords for data of that type, in which case the type error
    stands where the errors of those keywords would stand; then \<open>enum\<close>; then the keywords
    for numbers, strings, arrays and objects. A keyword applies only to data of its own kind,
    and an error carries the JSON pointer of the data it is about.
  \<^item> With \<open>allErrors\<close> every error is collected, without it only the first one.
\<close>

record ajv_options =
  allErrors :: bool
  allowUnionTypes :: bool

definition createAjv :: ajv_options where
  "createAjv = \<lparr>allErrors = True, allowUnionTypes = True\<rparr>"

record ErrorObject =
  instancePath :: string
  message :: "string option"

definition error_at :: "string \<Rightarrow> string \<Rightarrow> ErrorObject" where
  "error_at path text = \<lparr>instancePath = path, message = Some text\<rparr>"

fun has_type :: "string \<Rightarrow> jsval \<Rightarrow> bool" where
  "has_type t (JStr s) = (t = ''string'')"
| "has_type t (JNum n) = (t = ''number'' \<or> t = ''integer'')"
| "has_type t (JBool b) = (t = ''boolean'')"
| "has_type t JNull = (t = ''null'')"
| "has_type t (JArr xs) = (t = ''array'')"
| "has_type t (JObj props) = (t = ''object'')"

definition escapeJsonPointer :: "string \<Rightarrow> string" where
  "escapeJsonPointer s =
     concat (map (\<lambda>c. if c = CHR ''~'' then ''~0'' else if c = CHR ''/'' then ''~1'' else [c]) s)"

text \<open>The names that every object inherits from \<^verbatim>\<open>Object.prototype\<close>.\<close>

definition object_prototype_names :: "string list" where
  "object_prototype_names =
     [''constructor'', ''__defineGetter__'', ''__defineSetter__'', ''hasOwnProperty'',
      ''__lookupGetter__'', ''__lookupSetter__'', ''isPrototypeOf'', ''propertyIsEnumerable'',
      ''toString'', ''valueOf'', ''__proto__'', ''toLocaleString'']"

text \<open>
  The types a schema names, and the keywords that make Ajv generate code for data of one type.
  The error for a wrong type lists the type names separated by commas.
\<close>

definition schema_types :: "(string \<times> jsval) list \<Rightarrow> string list" where
  "schema_types kw =
     (case map_of kw ''type'' of
        Some (JStr t) \<Rightarrow> [t]
      | Some (JArr ts) \<Rightarrow> strings_of ts
      | _ \<Rightarrow> [])"

definition rules_for :: "string \<Rightarrow> string list" where
  "rules_for t =
     (if t = ''number'' then [''minimum'']
      else if t = ''string'' then [''minLength'']
      else if t = ''array'' then [''minItems'', ''items'']
      else if t = ''object'' then [''required'', ''additionalProperties'', ''properties'']
      else [])"

definition group_used :: "string \<Rightarrow> (string \<times> jsval) list \<Rightarrow> bool" where
  "group_used t kw = (\<exists>k \<in> set (rules_for t). map_of kw k \<noteq> None)"

definition type_checked_first :: "(string \<times> jsval) list \<Rightarrow> bool" where
  "type_checked_first kw =
     (let types = schema_types kw
      in types \<noteq> [] \<and> \<not> (length types = 1 \<and> group_used (hd types) kw))"

definition type_errors :: "(string \<times> jsval) list \<Rightarrow> string \<Rightarrow> jsval \<Rightarrow> ErrorObject list" where
  "type_errors kw path data =
     (let types = schema_types kw
      in if types = [] \<or> (\<exists>t \<in> set types. has_type t data) then []
         else [error_at path (''must be '' @ join '','' types)])"

definition enum_errors :: "(string \<times> jsval) list \<Rightarrow> string \<Rightarrow> jsval \<Rightarrow> ErrorObject list" where
  "enum_errors kw path data =
     (case map_of kw ''enum'' of
        Some (JArr allowed) \<Rightarrow>
          if data \<in> set allowed then [] else [error_at path ''must be equal to one of the allowed values'']
      | _ \<Rightarrow> [])"

definition minimum_errors :: "(string \<times> jsval) list \<Rightarrow> string \<Rightarrow> int \<Rightarrow> ErrorObject list" where
  "minimum_errors kw path n =
     (case map_of kw ''minimum'' of
        Some (JNum m) \<Rightarrow> if n < m then [error_at path (''must be >= '' @ String_number m)] else []
      | _ \<Rightarrow> [])"

definition minLength_errors :: "(string \<times> jsval) list \<Rightarrow> string \<Rightarrow> string \<Rightarrow> ErrorObject list" where
  "minLength_errors kw path s =
     (case map_of kw ''minLength'' of
        Some (JNum m) \<Rightarrow>
          if int (length s) < m
          then [error_at path (''must NOT have fewer than '' @ String_number m @ '' characters'')] else []
      | _ \<Rightarrow> [])"

definition minItems_errors :: "(string \<times> jsval) list \<Rightarrow> string \<Rightarrow> jsval list \<Rightarrow> ErrorObject list" where
  "minItems_errors kw path xs =
     (case map_of kw ''minItems'' of
        Some (JNum m) \<Rightarrow>
          if int (length xs) < m
          then [error_at path (''must NOT have fewer than '' @ String_number m @ '' items'')] else []
      | _ \<Rightarrow> [])"

definition required_errors ::
  "(string \<times> jsval) list \<Rightarrow> string \<Rightarrow> (string \<times> jsval) list \<Rightarrow> ErrorObject list" where
  "required_errors kw path props =
     (case map_of kw ''required'' of
        Some (JArr names) \<Rightarrow>
          map (\<lambda>n. error_at path (''must have required property '' @ [CHR 0x27] @ n @ [CHR 0x27]))
            (filter (\<lambda>n. map_of props n = None \<and> n \<notin> set object_prototype_names) (strings_of names))
      | _ \<Rightarrow> [])"

definition additionalProperties_errors ::
  "(string \<times> jsval) list \<Rightarrow> string \<Rightarrow> (string \<times> jsval) list \<Rightarrow> ErrorObject list" where
  "additionalProperties_errors kw path props =
     (case map_of kw ''additionalProperties'' of
        Some (JBool False) \<Rightarrow>
          (let defined = (case map_of kw ''properties'' of Some (JObj ps) \<Rightarrow> map fst ps | _ \<Rightarrow> [])
           in map (\<lambda>k. error_at path ''must NOT have additional properties'')
                (filter (\<lambda>k. k \<notin> set defined) (map fst props)))
      | _ \<Rightarrow> [])"

text \<open>
  The errors of the keywords for data of type \<open>t\<close>: nothing when the schema has no such keyword,
  \<open>body\<close> when the data is of that type, and otherwise the type error when \<open>t\<close> is the one type
  the schema names.
\<close>

definition group_errors ::
  "string \<Rightarrow> (string \<times> jsval) list \<Rightarrow> string \<Rightarrow> jsval \<Rightarrow> ErrorObject list \<Rightarrow> ErrorObject list" where
  "group_errors t kw path data body =
     (if \<not> group_used t kw then []
      else if has_type t data then body
      else if schema_types kw = [t] then type_errors kw path data
      else [])"

lemma size_map_of:
  "map_of kw k = Some v \<Longrightarrow> size v < size (JObj kw)"
  by (induction kw) (auto split: if_splits)

lemma size_member:
  "(k, v) \<in> set kw \<Longrightarrow> size v < size (JObj kw)"
  by (induction kw) auto

function schema_errors :: "jsval \<Rightarrow> string \<Rightarrow> jsval \<Rightarrow> ErrorObject list" where
  "schema_errors schema path data =
     (case schema of
        JObj kw \<Rightarrow>
          (if type_checked_first kw then type_errors kw path data else []) @
          enum_errors kw path data @
          group_errors ''number'' kw path data
            (case data of JNum n \<Rightarrow> minimum_errors kw path n | _ \<Rightarrow> []) @
          group_errors ''string'' kw path data
            (case data of JStr s \<Rightarrow> minLength_errors kw path s | _ \<Rightarrow> []) @
          group_errors ''array'' kw path data
            (case data of
               JArr xs \<Rightarrow>
                 minItems_errors kw path xs @
                 (case map_of kw ''items'' of
                    Some sub \<Rightarrow>
                      concat (map (\<lambda>(i, x). schema_errors sub (path @ ''/'' @ string_of_nat i) x)
                               (enumerate 0 xs))
                  | None \<Rightarrow> [])
             | _ \<Rightarrow> []) @
          group_errors ''object'' kw path data
            (case data of
               JObj props \<Rightarrow>
                 required_errors kw path props @
                 additionalProperties_errors kw path props @
                 (case map_of kw ''properties'' of
                    Some (JObj ps) \<Rightarrow>
                      concat (map (\<lambda>(k, sub).
                                case map_of props k of
                                  Some v \<Rightarrow> schema_errors sub (path @ ''/'' @ escapeJsonPointer k) v
                                | None \<Rightarrow> [])
                              ps)
                  | _ \<Rightarrow> [])
             | _ \<Rightarrow> [])
      | _ \<Rightarrow> [])"
  by pat_completeness auto
termination
  apply (relation "measure (\<lambda>(schema, path, data). size schema)")
    apply simp
   apply (auto dest!: size_map_of size_member)
  done

declare schema_errors.simps [simp del]

text \<open>
  Compilation. \<open>modelled_keywords\<close> are the keywords described above, \<open>ajv_keywords\<close> the other
  keywords that Ajv or \<^verbatim>\<open>ajv-formats\<close> may define; every other key of a schema is unknown to
  Ajv. \<open>keyword_value_ok\<close> is what the draft-07 meta-schema and this description ask of the
  value of a keyword; \<open>in_model\<close> asks it of a schema and of the schemas inside it.
\<close>

definition modelled_keywords :: "string list" where
  "modelled_keywords =
     [''type'', ''enum'', ''minimum'', ''minLength'', ''minItems'', ''items'', ''required'',
      ''properties'', ''additionalProperties'', ''title'', ''description'']"

definition ajv_keywords :: "string list" where
  "ajv_keywords =
     [''$schema'', ''$id'', ''id'', ''$ref'', ''$defs'', ''definitions'', ''$comment'', ''$vocabulary'',
      ''$async'', ''$anchor'', ''$recursiveRef'', ''$recursiveAnchor'', ''$dynamicRef'',
      ''$dynamicAnchor'', ''$data'', ''maximum'', ''exclusiveMaximum'', ''exclusiveMinimum'',
      ''multipleOf'', ''maxLength'', ''pattern'', ''maxProperties'', ''minProperties'', ''maxItems'',
      ''uniqueItems'', ''nullable'', ''const'', ''not'', ''anyOf'', ''oneOf'', ''allOf'', ''if'', ''then'',
      ''else'', ''propertyNames'', ''dependencies'', ''patternProperties'', ''additionalItems'',
      ''contains'', ''minContains'', ''maxContains'', ''prefixItems'', ''unevaluatedProperties'',
      ''unevaluatedItems'', ''dependentRequired'', ''dependentSchemas'', ''discriminator'',
      ''format'', ''formatMaximum'', ''formatMinimum'', ''formatExclusiveMaximum'',
      ''formatExclusiveMinimum'', ''default'', ''deprecated'', ''readOnly'', ''writeOnly'',
      ''examples'', ''contentMediaType'', ''contentEncoding'', ''contentSchema'']"

definition simple_types :: "string list" where
  "simple_types = [''array'', ''boolean'', ''integer'', ''null'', ''number'', ''object'', ''string'']"

fun is_string :: "jsval \<Rightarrow> bool" where
  "is_string (JStr s) = True"
| "is_string v = False"

fun is_primitive :: "jsval \<Rightarrow> bool" where
  "is_primitive (JArr xs) = False"
| "is_primitive (JObj props) = False"
| "is_primitive v = True"

definition keyword_value_ok :: "string \<Rightarrow> jsval \<Rightarrow> bool" where
  "keyword_value_ok k v =
     (if k = ''type'' then
        (case v of
           JStr t \<Rightarrow> t \<in> set simple_types
         | JArr ts \<Rightarrow> ts \<noteq> [] \<and> distinct ts \<and> (\<forall>t \<in> set ts. is_string t)
                       \<and> (\<forall>t \<in> set (strings_of ts). t \<in> set simple_types)
         | _ \<Rightarrow> False)
      else if k = ''enum'' then
        (case v of JArr vs \<Rightarrow> vs \<noteq> [] \<and> (\<forall>x \<in> set vs. is_primitive x) | _ \<Rightarrow> False)
      else if k = ''minimum'' then (case v of JNum n \<Rightarrow> True | _ \<Rightarrow> False)
      else if k = ''minLength'' \<or> k = ''minItems'' then (case v of JNum n \<Rightarrow> 0 \<le> n | _ \<Rightarrow> False)
      else if k = ''required'' then
        (case v of JArr names \<Rightarrow> distinct names \<and> (\<forall>n \<in> set names. is_string n) | _ \<Rightarrow> False)
      else if k = ''additionalProperties'' then (case v of JBool b \<Rightarrow> True | _ \<Rightarrow> False)
      else if k = ''items'' then isRecord v
      else if k = ''properties'' then
        (case v of
           JObj ps \<Rightarrow> distinct (map fst ps)
                       \<and> (\<forall>(n, sub) \<in> set ps. n \<notin> set object_prototype_names \<and> isRecord sub)
         | _ \<Rightarrow> False)
      else if k = ''title'' \<or> k = ''description'' then is_string v
      else k \<notin> set ajv_keywords)"

function in_model :: "jsval \<Rightarrow> bool" where
  "in_model schema =
     (case schema of
        JObj kw \<Rightarrow>
          distinct (map fst kw)
          \<and> (\<forall>(k, v) \<in> set kw.
                keyword_value_ok k v
                \<and> (if k = ''items'' then in_model v
                   else if k = ''properties'' then
                     (case v of JObj ps \<Rightarrow> (\<forall>(n, sub) \<in> set ps. in_model sub) | _ \<Rightarrow> True)
                   else True))
      | _ \<Rightarrow> False)"
  by pat_completeness auto
termination
  apply (relation "measure size")
    apply simp
   apply (auto dest!: size_member)
  done

declare in_model.simps [simp del]

function unknown_keywords :: "jsval \<Rightarrow> string list" where
  "unknown_keywords schema =
     (case schema of
        JObj kw \<Rightarrow>
          concat (map (\<lambda>(k, v).
            if k \<notin> set modelled_keywords then [k]
            else if k = ''items'' then unknown_keywords v
            else if k = ''properties'' then
              (case v of JObj ps \<Rightarrow> concat (map (\<lambda>(n, sub). unknown_keywords sub) ps) | _ \<Rightarrow> [])
            else []) kw)
      | _ \<Rightarrow> [])"
  by pat_completeness auto
termination
  apply (relation "measure size")
    apply simp
   apply (auto dest!: size_member)
  done

declare unknown_keywords.simps [simp del]

text \<open>
  \<^verbatim>\<open>ajv.compile(schema)\<close>. Ajv names the first unknown keyword that its code generation meets;
  the order of that traversal is not described here, so a schema with unknown keywords of
  different names is left to \<open>Unmodelled\<close>, as is a boolean schema.
\<close>

definition compile_error :: "jsval \<Rightarrow> error option" where
  "compile_error schema =
     (case schema of
        JObj kw \<Rightarrow>
          if \<not> in_model schema then Some Unmodelled
          else (case remdups (unknown_keywords schema) of
                  [] \<Rightarrow> None
                | [k] \<Rightarrow> Some (OtherError (''strict mode: unknown keyword: '' @ [CHR 0x22] @ k @ [CHR 0x22]))
                | _ \<Rightarrow> Some Unmodelled)
      | JBool b \<Rightarrow> Some Unmodelled
      | _ \<Rightarrow> Some (OtherError ''schema must be object or boolean''))"

definition ajv_compile ::
  "ajv_options \<Rightarrow> jsval \<Rightarrow> error + (jsval \<Rightarrow> bool \<times> ErrorObject list option)" where
  "ajv_compile opts schema =
     (case compile_error schema of
        Some err \<Rightarrow> Inl err
      | None \<Rightarrow>
          Inr (\<lambda>data.
            let errors = schema_errors schema [] data
            in if errors = [] then (True, None)
               else (False, Some (if allErrors opts then errors else take 1 errors))))"

definition format_error :: "ErrorObject \<Rightarrow> string" where
  "format_error e =
     (let at = (if instancePath e \<noteq> [] then instancePath e else ''/'')
      in at @ '' '' @ (case message e of Some m \<Rightarrow> m | None \<Rightarrow> ''is invalid''))"

definition validateSchema :: "jsval \<Rightarrow> jsval \<Rightarrow> error + bool \<times> string list" where
  "validateSchema schema data =
     (case ajv_compile createAjv schema of
        Inl err \<Rightarrow> Inl err
      | Inr validate \<Rightarrow>
          (case validate data of
             (True, _) \<Rightarrow> Inr (True, [])
           | (False, Some errors) \<Rightarrow> Inr (False, map format_error errors)
           | (False, None) \<Rightarrow> Inr (False, [''unknown validation error''])))"

section \<open>templateStore.ts\<close>

text \<open>
  The template directory is a list of entries by file name; names are distinct, and a
  directory that does not exist behaves as the empty one. The text of a file is represented by
  what \<^verbatim>\<open>YAML.parse\<close> makes of it: a document, or a parse failure with its message; writing
  \<^verbatim>\<open>YAML.stringify(doc)\<close> stores \<open>Document doc\<close>. Template ids are file name components.
\<close>

definition string_schema :: jsval where
  "string_schema = JObj [(''type'', JStr ''string'')]"

definition TASK_TEMPLATE_SCHEMA :: jsval where
  "TASK_TEMPLATE_SCHEMA = JObj [
     (''type'', JStr ''object''),
     (''required'', JArr [JStr ''id'', JStr ''version'', JStr ''description'',
        JStr ''inputs_schema'', JStr ''outputs_schema'', JStr ''steps'']),
     (''additionalProperties'', JBool True),
     (''properties'', JObj [
        (''id'', JObj [(''type'', JStr ''string''), (''minLength'', JNum 1)]),
        (''version'', JObj [(''type'', JStr ''integer''), (''minimum'', JNum 1)]),
        (''description'', JObj [(''type'', JStr ''string''), (''minLength'', JNum 1)]),
        (''inputs_schema'', JObj [(''type'', JStr ''object'')]),
        (''outputs_schema'', JObj [(''type'', JStr ''object'')]),
        (''steps'', JObj [
           (''type'', JStr ''array''),
           (''minItems'', JNum 1),
           (''items'', JObj [
              (''type'', JStr ''object''),
              (''required'', JArr [JStr ''id'', JStr ''instruction'']),
              (''properties'', JObj [(''id'', string_schema), (''instruction'', string_schema)])])]),
        (''verification'', JObj [
           (''type'', JStr ''array''),
           (''items'', JObj [
              (''type'', JStr ''object''),
              (''required'', JArr [JStr ''id'', JStr ''command'']),
              (''properties'', JObj [(''id'', string_schema), (''command'', string_schema)])])]),
        (''domain_profiles_default'', JObj [(''type'', JStr ''array''), (''items'', string_schema)]),
        (''mcd_selectors'', JObj [(''type'', JStr ''array''), (''items'', string_schema)]),
        (''active'', JObj [(''type'', JStr ''boolean'')]),
        (''deprecated'', JObj [(''type'', JStr ''boolean'')]),
        (''deprecated_at'', string_schema),
        (''deprecated_reason'', string_schema)])]"

datatype file_content = Malformed string | Document jsval

datatype dir_entry = Dir | File file_content

type_synonym directory = "(string \<times> dir_entry) list"

definition readFile :: "directory \<Rightarrow> string \<Rightarrow> error + file_content" where
  "readFile dir name =
     (case map_of dir name of
        None \<Rightarrow> Inl (StorageError ''ENOENT'' name)
      | Some Dir \<Rightarrow> Inl (StorageError ''EISDIR'' name)
      | Some (File content) \<Rightarrow> Inr content)"

definition writeFile :: "directory \<Rightarrow> string \<Rightarrow> file_content \<Rightarrow> error + directory" where
  "writeFile dir name content =
     (case map_of dir name of
        Some Dir \<Rightarrow> Inl (StorageError ''EISDIR'' name)
      | _ \<Rightarrow> Inr (AList.update name (File content) dir))"

text \<open>
  \<open>parseFilename\<close> implements the pattern \<^verbatim>\<open>/^(.+)@(\d+)\.ya?ml$/i\<close>: an extension \<open>.yaml\<close> or
  \<open>.yml\<close> in any letter case, before it a non-empty run of digits, before that \<open>@\<close>, before
  that a non-empty id without line breaks; versions below 1 are refused.
\<close>

definition templateFilename :: "string \<Rightarrow> int \<Rightarrow> string" where
  "templateFilename templateId version = templateId @ ''@'' @ String_number version @ ''.yaml''"

definition is_digit :: "char \<Rightarrow> bool" where
  "is_digit c = (c \<in> set ''0123456789'')"

definition lower :: "char \<Rightarrow> char" where
  "lower c =
     (case map_of (zip ''ABCDEFGHIJKLMNOPQRSTUVWXYZ'' ''abcdefghijklmnopqrstuvwxyz'') c of
        Some l \<Rightarrow> l
      | None \<Rightarrow> c)"

definition ends_with :: "string \<Rightarrow> string \<Rightarrow> bool" where
  "ends_with s x = (length x \<le> length s \<and> drop (length s - length x) s = x)"

definition parseInt :: "string \<Rightarrow> int" where
  "parseInt digits = fold (\<lambda>c n. 10 * n + (int (of_char c) - 48)) digits 0"

definition strip_extension :: "string \<Rightarrow> string option" where
  "strip_extension name =
     (if ends_with (map lower name) ''.yaml'' then Some (take (length name - 5) name)
      else if ends_with (map lower name) ''.yml'' then Some (take (length name - 4) name)
      else None)"

definition parseFilename :: "string \<Rightarrow> (string \<times> int) option" where
  "parseFilename filename =
     (case strip_extension filename of
        None \<Rightarrow> None
      | Some stem \<Rightarrow>
          let digits = rev (takeWhile is_digit (rev stem));
              front = take (length stem - length digits) stem
          in if digits = [] \<or> front = [] \<or> last front \<noteq> CHR ''@'' then None
             else
               let ident = butlast front; version = parseInt digits
               in if ident = [] \<or> CHR 0x0A \<in> set ident \<or> CHR 0x0D \<in> set ident \<or> version < 1
                  then None else Some (ident, version))"

definition listTemplateVersions :: "directory \<Rightarrow> string \<Rightarrow> int list" where
  "listTemplateVersions dir templateId =
     rev (sort (concat (map (\<lambda>(name, e).
        case e of
          Dir \<Rightarrow> []
        | File content \<Rightarrow>
            (case parseFilename name of
               None \<Rightarrow> []
             | Some (ident, version) \<Rightarrow> if ident \<noteq> templateId then [] else [version])) dir)))"

definition getLatestVersion :: "directory \<Rightarrow> string \<Rightarrow> int option" where
  "getLatestVersion dir templateId =
     (let versions = listTemplateVersions dir templateId
      in if length versions > 0 then Some (hd versions) else None)"

definition loadTemplate :: "directory \<Rightarrow> string \<Rightarrow> int option \<Rightarrow> error + jsval" where
  "loadTemplate dir templateId version =
     (case (case version of Some v \<Rightarrow> Some v | None \<Rightarrow> getLatestVersion dir templateId) of
        None \<Rightarrow> Inl (NotFound (''Task template not found: '' @ templateId))
      | Some targetVersion \<Rightarrow>
          (case readFile dir (templateFilename templateId targetVersion) of
             Inl err \<Rightarrow> Inl err
           | Inr (Malformed text) \<Rightarrow> Inl (YamlError text)
           | Inr (Document parsed) \<Rightarrow>
               if \<not> isRecord parsed then
                 Inl (OtherError (''Task template '' @ templateId @ ''@'' @ String_number targetVersion
                        @ '' did not parse as an object''))
               else
                 (case validateSchema TASK_TEMPLATE_SCHEMA parsed of
                    Inl err \<Rightarrow> Inl err
                  | Inr (valid, errors) \<Rightarrow>
                      if \<not> valid then
                        Inl (ValidationError (''Task template '' @ templateId @ ''@''
                               @ String_number targetVersion @ '' failed validation: ''
                               @ join '', '' errors))
                      else Inr parsed)))"

fun set_property :: "string \<Rightarrow> jsval \<Rightarrow> jsval \<Rightarrow> jsval" where
  "set_property k v (JObj props) = JObj (AList.update k v props)"
| "set_property k v other = other"

fun get_property :: "jsval \<Rightarrow> string \<Rightarrow> jsval option" where
  "get_property (JObj props) k = map_of props k"
| "get_property other k = None"

text \<open>
  \<open>deleteTemplate\<close> stores the reason only when it is not blank
  (\<^verbatim>\<open>reason && reason.trim().length > 0\<close>). \<open>trim\<close> removes the white space and the line
  terminators of ECMA-262 from both ends: the code units listed in \<open>white_space_code_units\<close>,
  of which a HOL character can hold those below 256, the no-break space among them.
  \<open>now\<close> stands for \<^verbatim>\<open>new Date().toISOString()\<close>.
\<close>

definition white_space_code_units :: "nat list" where
  "white_space_code_units =
     [0x0009, 0x000A, 0x000B, 0x000C, 0x000D, 0x0020, 0x00A0, 0x1680, 0x2000, 0x2001, 0x2002,
      0x2003, 0x2004, 0x2005, 0x2006, 0x2007, 0x2008, 0x2009, 0x200A, 0x2028, 0x2029, 0x202F,
      0x205F, 0x3000, 0xFEFF]"

definition is_space :: "char \<Rightarrow> bool" where
  "is_space c = (of_char c \<in> set white_space_code_units)"

definition trim :: "string \<Rightarrow> string" where
  "trim s = rev (dropWhile is_space (rev (dropWhile is_space s)))"

definition deleteTemplate ::
  "string \<Rightarrow> directory \<Rightarrow> string \<Rightarrow> int \<Rightarrow> string option
     \<Rightarrow> (error + string \<times> int \<times> bool) \<times> directory" where
  "deleteTemplate now dir templateId version reason =
     (case loadTemplate dir templateId (Some version) of
        Inl err \<Rightarrow> (Inl err, dir)
      | Inr template \<Rightarrow>
          let t1 = set_property ''active'' (JBool False) template;
              t2 = set_property ''deprecated'' (JBool True) t1;
              t3 = set_property ''deprecated_at'' (JStr now) t2;
              t4 = (case reason of
                      Some r \<Rightarrow>
                        if r \<noteq> [] \<and> length (trim r) > 0
                        then set_property ''deprecated_reason'' (JStr r) t3 else t3
                    | None \<Rightarrow> t3)
          in (case writeFile dir (templateFilename templateId version) (Document t4) of
                Inl err \<Rightarrow> (Inl err, dir)
              | Inr dir' \<Rightarrow> (Inr (templateId, version, True), dir')))"

text \<open>The template \<open>t@1\<close> used in the examples: one step, \<^verbatim>\<open>Create {name}\<close>.\<close>

definition example_template :: jsval where
  "example_template = JObj [
     (''id'', JStr ''t''), (''version'', JNum 1), (''description'', JStr ''Create a file''),
     (''inputs_schema'', JObj [(''type'', JStr ''object''), (''required'', JArr [JStr ''name'']),
         (''properties'', JObj [(''name'', JObj [(''type'', JStr ''string'')]),
                               (''mode'', JObj [(''type'', JStr ''string'')])])]),
     (''outputs_schema'', JObj [(''type'', JStr ''object'')]),
     (''steps'', JArr [JObj [(''id'', JStr ''s1''), (''instruction'', JStr ''Create {name}'')]])]"

section \<open>instanceStore.ts\<close>




definition stored_versions :: "directory \<Rightarrow> string \<Rightarrow> int set" where
  "stored_versions dir templateId =
     {v. \<exists>name content. (name, File content) \<in> set dir \<and> parseFilename name = Some (templateId, v)}"

definition template_properties :: "(string \<times> jsval) list" where
  "template_properties =
     (case get_property TASK_TEMPLATE_SCHEMA ''properties'' of Some (JObj ps) \<Rightarrow> ps | _ \<Rightarrow> [])"

section \<open>profileStore.ts\<close>

text \<open>
  A loaded profile is the parsed document with its id, its file path and the observation groups
  collected from the document tree.
\<close>

record ObservationGroup =
  groupPath :: string
  observations :: "string list"

record ResolvedProfile =
  profile_id :: string
  filePath :: string
  profile :: jsval
  groups :: "ObservationGroup list"

function collectObservationGroups :: "jsval \<Rightarrow> string list \<Rightarrow> ObservationGroup list" where
  "collectObservationGroups node currentPath =
     (case node of
        JObj entries \<Rightarrow>
          concat (map (\<lambda>(k, v).
            (case (k = ''observations'', v) of
               (True, JArr xs) \<Rightarrow>
                 (let obs = strings_of xs
                  in if length obs > 0
                     then [\<lparr>groupPath = (if length currentPath > 0 then join ''.'' currentPath
                                          else ''observations''),
                            observations = obs\<rparr>]
                     else [])
             | _ \<Rightarrow> if isRecord v then collectObservationGroups v (currentPath @ [k]) else []))
            entries)
      | _ \<Rightarrow> [])"
  by pat_completeness auto
termination
  by (relation "measure (\<lambda>(node, currentPath). size node)") (auto dest: size_member)

declare collectObservationGroups.simps [simp del]

text \<open>
  The store: its base directory, the platform's \<^verbatim>\<open>path.join\<close>, and the files below the base
  directory by path. \<open>loadProfile\<close> turns a missing file into the error
  \<^verbatim>\<open>Profile '<id>' not found\<close> and passes every other failure on.
\<close>

record DomainProfileStore =
  baseDir :: string
  path_join :: "string list \<Rightarrow> string"
  profile_files :: directory

definition profilePath :: "DomainProfileStore \<Rightarrow> string \<Rightarrow> string" where
  "profilePath store profileId =
     (let safeRel = replaceAll profileId ''..'' ''__''
      in path_join store (baseDir store # split CHR ''/'' safeRel) @ ''.yaml'')"

definition loadProfile :: "DomainProfileStore \<Rightarrow> string \<Rightarrow> error + ResolvedProfile" where
  "loadProfile store profileId =
     (let filePath = profilePath store profileId
      in case readFile (profile_files store) filePath of
           Inl err \<Rightarrow>
             (case err of
                StorageError code p \<Rightarrow>
                  if code = ''ENOENT''
                  then Inl (NotFound (''Profile '' @ [CHR 0x27] @ profileId @ [CHR 0x27] @ '' not found''))
                  else Inl err
              | _ \<Rightarrow> Inl err)
         | Inr (Malformed text) \<Rightarrow> Inl (YamlError text)
         | Inr (Document parsed) \<Rightarrow>
             if \<not> isRecord parsed then
               Inl (OtherError (''Domain profile '' @ profileId @ '' did not parse as an object''))
             else Inr \<lparr>profile_id = profileId, filePath = filePath, profile = parsed,
                       groups = collectObservationGroups parsed []\<rparr>)"

text \<open>
  \<open>resolveProfiles\<close>: \<open>p.profile.relations\<close> when it is an array, else no relations; an entry
  counts when it is an object of type \<open>inherits\<close> whose target is a string. \<open>relation_targets\<close>
  lists the targets that the loop over the relations visits, \<open>store_targets\<close> the targets that
  occur in any file of the store.
\<close>

definition relations_of :: "jsval \<Rightarrow> jsval list" where
  "relations_of doc = (case get_property doc ''relations'' of Some (JArr rs) \<Rightarrow> rs | _ \<Rightarrow> [])"

fun inherits_target :: "jsval \<Rightarrow> string option" where
  "inherits_target (JObj r) =
     (if map_of r ''type'' \<noteq> Some (JStr ''inherits'') then None
      else (case map_of r ''target'' of Some (JStr target) \<Rightarrow> Some target | _ \<Rightarrow> None))"
| "inherits_target r = None"

fun relation_targets :: "jsval list \<Rightarrow> string list" where
  "relation_targets [] = []"
| "relation_targets (r # rs) =
     (case inherits_target r of
        None \<Rightarrow> relation_targets rs
      | Some target \<Rightarrow> target # relation_targets rs)"

definition profile_targets :: "jsval \<Rightarrow> string list" where
  "profile_targets doc = relation_targets (relations_of doc)"

definition store_targets :: "DomainProfileStore \<Rightarrow> string set" where
  "store_targets store =
     (\<Union>(name, e) \<in> set (profile_files store).
        case e of File (Document doc) \<Rightarrow> set (profile_targets doc) | _ \<Rightarrow> {})"

text \<open>
  The three local variables of \<open>resolveProfiles\<close>, and the closure \<open>visit\<close> with its loop over
  the relations of the loaded profile. An exception ends the traversal with \<open>Inl\<close>.
\<close>

record resolve_state =
  resolved :: "ResolvedProfile list"
  visiting :: "string set"
  visited :: "string set"

definition cycle_message :: "string \<Rightarrow> string" where
  "cycle_message ident = ''Cycle detected in domain profile inheritance at: '' @ ident"

function visit :: "DomainProfileStore \<Rightarrow> string \<Rightarrow> resolve_state \<Rightarrow> error + resolve_state"
  and visit_relations :: "DomainProfileStore \<Rightarrow> jsval list \<Rightarrow> resolve_state \<Rightarrow> error + resolve_state"
where
  "visit store ident st =
     (if ident \<in> visited st then Inr st
      else if ident \<in> visiting st then Inl (CycleError (cycle_message ident))
      else
        let st1 = st\<lparr>visiting := insert ident (visiting st)\<rparr>
        in (case loadProfile store ident of
              Inl err \<Rightarrow> Inl err
            | Inr p \<Rightarrow>
                (case visit_relations store (relations_of (profile p)) st1 of
                   Inl err \<Rightarrow> Inl err
                 | Inr st2 \<Rightarrow>
                     Inr (st2\<lparr>visiting := visiting st2 - {ident},
                              visited := insert ident (visited st2),
                              resolved := resolved st2 @ [p]\<rparr>))))"
| "visit_relations store [] st = Inr st"
| "visit_relations store (r # rs) st =
     (case inherits_target r of
        None \<Rightarrow> visit_relations store rs st
      | Some target \<Rightarrow>
          (case visit store target st of
             Inl err \<Rightarrow> Inl err
           | Inr st' \<Rightarrow> visit_relations store rs st'))"
  by pat_completeness auto


text \<open>
  Termination. A call of \<open>visit\<close> that goes on adds an identifier to \<open>visiting\<close>; the
  identifiers it can meet are its argument and the targets in the files, which are finitely
  many; and a call that returns leaves \<open>visiting\<close> as it found it.
\<close>

definition visit_measure ::
  "DomainProfileStore \<times> string \<times> resolve_state + DomainProfileStore \<times> jsval list \<times> resolve_state
     \<Rightarrow> nat \<times> nat" where
  "visit_measure call =
     (case call of
        Inl (store, ident, st) \<Rightarrow> (card (insert ident (store_targets store) - visiting st), 0)
      | Inr (store, rs, st) \<Rightarrow>
          (card ((store_targets store \<union> set (relation_targets rs)) - visiting st),
           Suc (length rs)))"

lemma finite_store_targets: "finite (store_targets store)"
  by (auto simp: store_targets_def split: dir_entry.splits file_content.splits)

lemma loadProfile_Inr:
  "loadProfile store ident = Inr p \<longleftrightarrow>
     (\<exists>doc. map_of (profile_files store) (profilePath store ident) = Some (File (Document doc))
        \<and> isRecord doc
        \<and> p = \<lparr>profile_id = ident, filePath = profilePath store ident, profile = doc,
                 groups = collectObservationGroups doc []\<rparr>)"
proof (cases "map_of (profile_files store) (profilePath store ident)")
  case None
  then show ?thesis by (simp add: loadProfile_def readFile_def Let_def)
next
  case (Some e)
  show ?thesis
  proof (cases e)
    case Dir
    with Some show ?thesis by (simp add: loadProfile_def readFile_def Let_def)
  next
    case (File content)
    show ?thesis
    proof (cases content)
      case (Malformed msg)
      with Some File show ?thesis by (simp add: loadProfile_def readFile_def Let_def)
    next
      case (Document doc)
      with Some File show ?thesis
        by (cases "isRecord doc") (auto simp: loadProfile_def readFile_def Let_def)
    qed
  qed
qed

lemma loadProfile_targets:
  assumes "loadProfile store ident = Inr p"
  shows "set (profile_targets (profile p)) \<subseteq> store_targets store"
proof -
  from assms have "map_of (profile_files store) (profilePath store ident) = Some (File (Document (profile p)))"
    unfolding loadProfile_Inr by (elim exE conjE) simp
  then have "(profilePath store ident, File (Document (profile p))) \<in> set (profile_files store)"
    by (rule map_of_SomeD)
  then have "set (profile_targets (profile p))
      \<subseteq> (\<Union>(name, e) \<in> set (profile_files store).
            case e of File (Document doc) \<Rightarrow> set (profile_targets doc) | _ \<Rightarrow> {})"
    by (intro UN_upper [THEN subset_trans [rotated]]) auto
  then show ?thesis by (simp only: store_targets_def)
qed

lemma loadProfile_id:
  "loadProfile store ident = Inr p \<Longrightarrow> profile_id p = ident"
  unfolding loadProfile_Inr by (elim exE conjE) simp

lemma visiting_preserved_partial:
  shows "visit_visit_relations_dom (Inl (store, ident, st)) \<Longrightarrow>
           \<forall>st'. visit store ident st = Inr st' \<longrightarrow> visiting st' = visiting st"
    and "visit_visit_relations_dom (Inr (store, rs, st)) \<Longrightarrow>
           \<forall>st'. visit_relations store rs st = Inr st' \<longrightarrow> visiting st' = visiting st"
proof (induct rule: visit_visit_relations.pinduct)
  case (1 store ident st)
  note eq = visit.psimps [OF 1(1)]
  show ?case
  proof (intro allI impI)
    fix st' assume r: "visit store ident st = Inr st'"
    show "visiting st' = visiting st"
    proof (cases "ident \<in> visited st")
      case True
      with r eq show ?thesis by simp
    next
      case nv: False
      show ?thesis
      proof (cases "ident \<in> visiting st")
        case True
        with nv r eq show ?thesis by simp
      next
        case ng: False
        show ?thesis
        proof (cases "loadProfile store ident")
          case (Inl err)
          with nv ng r eq show ?thesis by (simp add: Let_def)
        next
          case (Inr p)
          let ?st1 = "st\<lparr>visiting := insert ident (visiting st)\<rparr>"
          show ?thesis
          proof (cases "visit_relations store (relations_of (profile p)) ?st1")
            case (Inl err)
            with nv ng r eq Inr show ?thesis by (simp add: Let_def)
          next
            case c: (Inr st2)
            from 1(2) [OF nv ng refl Inr] c have "visiting st2 = visiting ?st1" by simp
            moreover from nv ng r eq Inr c
            have "st' = st2\<lparr>visiting := visiting st2 - {ident}, visited := insert ident (visited st2),
                        resolved := resolved st2 @ [p]\<rparr>"
              by (simp add: Let_def)
            ultimately show ?thesis using ng by auto
          qed
        qed
      qed
    qed
  qed
next
  case (2 store st)
  then show ?case by (simp add: visit_relations.psimps)
next
  case (3 store r rs st)
  note eq = visit_relations.psimps(2) [OF 3(1)]
  show ?case
  proof (intro allI impI)
    fix st' assume r: "visit_relations store (r # rs) st = Inr st'"
    show "visiting st' = visiting st"
    proof (cases "inherits_target r")
      case None
      with r eq have "visit_relations store rs st = Inr st'" by simp
      with 3(2) [OF None] show ?thesis by simp
    next
      case (Some target)
      show ?thesis
      proof (cases "visit store target st")
        case (Inl err)
        with Some r eq show ?thesis by simp
      next
        case (Inr st1)
        with Some r eq have b: "visit_relations store rs st1 = Inr st'" by simp
        from 3(3) [OF Some] Inr have "visiting st1 = visiting st" by simp
        moreover from 3(4) [OF Some Inr] b have "visiting st' = visiting st1" by simp
        ultimately show ?thesis by simp
      qed
    qed
  qed
qed

lemma card_targets_less:
  assumes "finite T" and "ident \<notin> V" and "S \<subseteq> T"
  shows "card ((T \<union> S) - insert ident V) < card (insert ident T - V)"
proof -
  from assms(3) have "T \<union> S = T" by auto
  moreover from assms(2) have "insert ident T - V = insert ident (T - insert ident V)" by auto
  moreover from assms(1) have "finite (T - insert ident V)" by simp
  ultimately show ?thesis by simp
qed

lemma visit_total: "All visit_visit_relations_dom"
proof (rule "visit_visit_relations.termination"
    [where R = "inv_image (less_than <*lex*> less_than) visit_measure"])
  show "wf (inv_image (less_than <*lex*> less_than) visit_measure)"
    by (intro wf_inv_image wf_lex_prod wf_less_than)
next
  fix store ident and st x :: resolve_state and p
  assume "ident \<notin> visiting st" and x: "x = st\<lparr>visiting := insert ident (visiting st)\<rparr>"
    and p: "loadProfile store ident = Inr p"
  from loadProfile_targets [OF p]
  have "set (relation_targets (relations_of (profile p))) \<subseteq> store_targets store"
    by (simp add: profile_targets_def)
  with finite_store_targets \<open>ident \<notin> visiting st\<close>
  have "card ((store_targets store \<union> set (relation_targets (relations_of (profile p))))
           - insert ident (visiting st)) < card (insert ident (store_targets store) - visiting st)"
    by (rule card_targets_less)
  then show "(Inr (store, relations_of (profile p), x), Inl (store, ident, st))
      \<in> inv_image (less_than <*lex*> less_than) visit_measure"
    by (simp add: visit_measure_def x)
next
  fix store r rs and st :: resolve_state
  assume "inherits_target r = None"
  then show "(Inr (store, rs, st), Inr (store, r # rs, st))
      \<in> inv_image (less_than <*lex*> less_than) visit_measure"
    by (simp add: visit_measure_def)
next
  fix store r rs target and st :: resolve_state
  assume t: "inherits_target r = Some target"
  have "card (insert target (store_targets store) - visiting st)
      \<le> card ((store_targets store \<union> insert target (set (relation_targets rs))) - visiting st)"
    by (rule card_mono) (auto simp: finite_store_targets)
  then show "(Inl (store, target, st), Inr (store, r # rs, st))
      \<in> inv_image (less_than <*lex*> less_than) visit_measure"
    using t by (auto simp: visit_measure_def)
next
  fix store r rs target and st st' :: resolve_state
  assume t: "inherits_target r = Some target" and v: "visit store target st = Inr st'"
    and d: "visit_visit_relations_dom (Inl (store, target, st))"
  from visiting_preserved_partial(1) [OF d] v have eq: "visiting st' = visiting st" by simp
  have "card ((store_targets store \<union> set (relation_targets rs)) - visiting st)
      \<le> card ((store_targets store \<union> insert target (set (relation_targets rs))) - visiting st)"
    by (rule card_mono) (auto simp: finite_store_targets)
  then show "(Inr (store, rs, st'), Inr (store, r # rs, st))
      \<in> inv_image (less_than <*lex*> less_than) visit_measure"
    using t by (auto simp: visit_measure_def eq)
qed

termination visit
  by (rule visit_total)

declare visit.simps [simp del]

fun visit_entries :: "DomainProfileStore \<Rightarrow> string list \<Rightarrow> resolve_state \<Rightarrow> error + resolve_state" where
  "visit_entries store [] st = Inr st"
| "visit_entries store (ident # idents) st =
     (case visit store ident st of
        Inl err \<Rightarrow> Inl err
      | Inr st' \<Rightarrow> visit_entries store idents st')"

definition resolveProfiles :: "DomainProfileStore \<Rightarrow> string list \<Rightarrow> error + ResolvedProfile list" where
  "resolveProfiles store entryProfileIds =
     (case visit_entries store entryProfileIds \<lparr>resolved = [], visiting = {}, visited = {}\<rparr> of
        Inl err \<Rightarrow> Inl err
      | Inr st \<Rightarrow> Inr (resolved st))"

text \<open>
  The inheritance graph of a store: an edge from a profile that loads to each target it
  inherits from. \<open>before xs a b\<close>: \<open>a\<close> occurs in \<open>xs\<close> before the first \<open>b\<close>.
  \<open>resolve_inv\<close> is the invariant of the traversal: the resolved profiles have distinct ids,
  they are the visited ones, and every parent of a visited profile stands before it.
\<close>

definition inherits :: "DomainProfileStore \<Rightarrow> (string \<times> string) set" where
  "inherits store =
     {(child, parent). \<exists>p. loadProfile store child = Inr p \<and> parent \<in> set (profile_targets (profile p))}"

definition before :: "'a list \<Rightarrow> 'a \<Rightarrow> 'a \<Rightarrow> bool" where
  "before xs a b \<longleftrightarrow> a \<in> set (takeWhile (\<lambda>x. x \<noteq> b) xs)"

definition resolved_ids :: "resolve_state \<Rightarrow> string list" where
  "resolved_ids st = map profile_id (resolved st)"

definition resolve_inv :: "DomainProfileStore \<Rightarrow> resolve_state \<Rightarrow> bool" where
  "resolve_inv store st \<longleftrightarrow>
     distinct (resolved_ids st) \<and> set (resolved_ids st) = visited st
     \<and> (\<forall>u \<in> visited st. \<forall>v. (u, v) \<in> inherits store \<longrightarrow> before (resolved_ids st) v u)"

text \<open>Stores for the examples: one file per profile, with its list of parents.\<close>

definition example_store :: "(string \<times> string list) list \<Rightarrow> DomainProfileStore" where
  "example_store graph =
     \<lparr>baseDir = ''profiles'', path_join = join ''/'',
      profile_files = map (\<lambda>(ident, parents).
        (''profiles/'' @ ident @ ''.yaml'',
         File (Document (JObj [(''description'', JStr ident),
           (''relations'', JArr (map (\<lambda>t. JObj [(''target'', JStr t), (''type'', JStr ''inherits'')]) parents))]))))
        graph\<rparr>"

definition step_ok :: "DomainProfileStore \<Rightarrow> resolve_state \<Rightarrow> resolve_state \<Rightarrow> bool" where
  "step_ok store st st' \<longleftrightarrow>
     visiting st' = visiting st \<and> visited st \<subseteq> visited st'
     \<and> (visited st' - visited st) \<inter> visiting st = {}
     \<and> (resolve_inv store st \<longrightarrow> resolve_inv store st')"

definition diamond_store :: DomainProfileStore where
  "diamond_store = example_store [(''a'', [''b'', ''c'']), (''b'', [''d'']), (''c'', [''d'']), (''d'', [])]"


section \<open>Properties of variable substitution\<close>













lemma substituteVariables_scenario:
  "substituteVariables stringify ''Create {name}'' [(''name'', JStr ''todo.txt'')] = ''Create todo.txt''"
  by (simp add: substituteVariables_def allVars_def deriveConvenienceVariables_def
      placeholder_def replaceAll_def replaceAll_from.simps)

lemma substituteVariables_unmatched:
  "substituteVariables stringify ''Create {name} in {dir}'' [(''name'', JStr ''todo.txt'')]
   = ''Create todo.txt in {dir}''"
  by (simp add: substituteVariables_def allVars_def deriveConvenienceVariables_def
      placeholder_def replaceAll_def replaceAll_from.simps)

text \<open>
  C7. The text put in for a placeholder is not always the value: \<open>replaceAll\<close> reads the dollar
  patterns of its replacement argument, so the string value \<^verbatim>\<open>a$$b\<close> is rendered as
  \<^verbatim>\<open>a$b\<close>. For the template \<^verbatim>\<open>Create {name}\<close> and the inputs \<^verbatim>\<open>{name: "a$$b"}\<close> the
  rendered instruction is \<^verbatim>\<open>Create a$b\<close>.
\<close>

theorem substituteVariables_dollar_pattern:
  "substituteVariables stringify ''Create {name}'' [(''name'', JStr ''a$$b'')] = ''Create a$b''"
  by (simp add: substituteVariables_def allVars_def deriveConvenienceVariables_def
      placeholder_def replaceAll_def replaceAll_from.simps)


text \<open>
  A derived segment with a dollar sign meets the replacement patterns of \<open>replaceAll\<close>, as
  any other value does: the segment \<^verbatim>\<open>a$$b\<close> is put in as \<^verbatim>\<open>a$b\<close>.
\<close>

lemma derived_resource_dollar_pattern:
  "substituteVariables stringify ''{resource}''
     [(''resource'', JStr ''items''), (''endpoint_path'', JStr ''/api/a$$b'')] = ''a$b''"
proof -
  have segs: "path_segments ''/api/a$$b'' = [''api'', ''a$$b'']"
    by (simp add: path_segments_def)
  show ?thesis
    by (simp add: substituteVariables_def allVars_def deriveConvenienceVariables_def segs
        placeholder_def replaceAll_def replaceAll_from.simps)
qed



text \<open>
  C10. Substitution is sequential: there are a template and two input objects with the same
  properties in a different order that are rendered differently, because a placeholder inside
  the value of one variable is replaced when a later variable is processed; the result also
  differs from the substitution of all variables at once.
\<close>

theorem substitution_is_sequential:
  "\<exists>template inputs inputs'.
     distinct (map fst inputs) \<and> set inputs' = set inputs \<and> distinct (map fst inputs')
     \<and> substituteVariables stringify template inputs \<noteq> substituteVariables stringify template inputs'
     \<and> substituteVariables stringify template inputs
         \<noteq> simultaneous_substitution stringify (allVars inputs) template"
proof -
  let ?i = "[(''a'', JStr ''{b}''), (''b'', JStr ''x'')]"
  let ?i' = "[(''b'', JStr ''x''), (''a'', JStr ''{b}'')]"
  have 1: "substituteVariables stringify ''{a}'' ?i = ''x''"
    by (simp add: substituteVariables_def allVars_def deriveConvenienceVariables_def
        placeholder_def replaceAll_def replaceAll_from.simps)
  have 2: "substituteVariables stringify ''{a}'' ?i' = ''{b}''"
    by (simp add: substituteVariables_def allVars_def deriveConvenienceVariables_def
        placeholder_def replaceAll_def replaceAll_from.simps)
  have 3: "simultaneous_substitution stringify (allVars ?i) ''{a}'' = ''{b}''"
    by (simp add: allVars_def deriveConvenienceVariables_def placeholder_def)
  have "distinct (map fst ?i) \<and> set ?i' = set ?i \<and> distinct (map fst ?i')
     \<and> substituteVariables stringify ''{a}'' ?i \<noteq> substituteVariables stringify ''{a}'' ?i'
     \<and> substituteVariables stringify ''{a}'' ?i \<noteq> simultaneous_substitution stringify (allVars ?i) ''{a}''"
    unfolding 1 2 3 by auto
  then show ?thesis by blast
qed

section \<open>Properties of plan execution\<close>

text \<open>
  C1. For a stored plan, \<open>executeTask\<close> fails with the state error exactly when the status read
  from the file is not \<open>pending\<close>. A pending plan is executed and stored as \<open>completed\<close>, and
  executing it again fails with the state error. No stored plan whose status is not \<open>pending\<close>
  is \<open>pending\<close> afterwards.
\<close>

theorem executeTask_state_gate:
  assumes "files planId = Some plan"
  shows "((\<exists>msg. fst (executeTask files planId) = Inl (StateError msg)) \<longleftrightarrow> status plan \<noteq> Pending)
    \<and> (status plan = Pending \<longrightarrow>
          (\<exists>results. fst (executeTask files planId) = Inr (True, plan\<lparr>status := Completed\<rparr>, results))
          \<and> snd (executeTask files planId) planId = Some (plan\<lparr>status := Completed\<rparr>)
          \<and> (\<exists>msg. fst (executeTask (snd (executeTask files planId)) planId) = Inl (StateError msg)))
    \<and> (\<forall>pid p. files pid = Some p \<and> status p \<noteq> Pending \<longrightarrow>
          (\<exists>p'. snd (executeTask files planId) pid = Some p' \<and> status p' \<noteq> Pending))"
  using assms
  by (auto simp: executeTask_def run_plan_def Let_def)

theorem executeTask_state_gate_witness:
  "(\<exists>results. fst (executeTask [''p1'' \<mapsto> \<lparr>plan_id = ''p1'', instance_id = ''i1'', project_slug = ''demo'',
        template_id = ''t'', template_version = 1, created_at = ''2025-12-13'',
        steps = [\<lparr>step_id = ''s1'', instruction = ''Create todo.txt''\<rparr>], verification = [],
        domain_framework = None, status = Pending\<rparr>] ''p1'')
     = Inr (True, \<lparr>plan_id = ''p1'', instance_id = ''i1'', project_slug = ''demo'',
        template_id = ''t'', template_version = 1, created_at = ''2025-12-13'',
        steps = [\<lparr>step_id = ''s1'', instruction = ''Create todo.txt''\<rparr>], verification = [],
        domain_framework = None, status = Completed\<rparr>, results))
   \<and> (\<exists>msg. fst (executeTask (snd (executeTask [''p1'' \<mapsto> \<lparr>plan_id = ''p1'', instance_id = ''i1'',
        project_slug = ''demo'', template_id = ''t'', template_version = 1, created_at = ''2025-12-13'',
        steps = [\<lparr>step_id = ''s1'', instruction = ''Create todo.txt''\<rparr>], verification = [],
        domain_framework = None, status = Pending\<rparr>] ''p1'')) ''p1'') = Inl (StateError msg))"
  using executeTask_state_gate [of "[''p1'' \<mapsto> \<lparr>plan_id = ''p1'', instance_id = ''i1'', project_slug = ''demo'',
        template_id = ''t'', template_version = 1, created_at = ''2025-12-13'',
        steps = [\<lparr>step_id = ''s1'', instruction = ''Create todo.txt''\<rparr>], verification = [],
        domain_framework = None, status = Pending\<rparr>]" "''p1''"]
  by simp

section \<open>Properties of schema validation and of the stores\<close>

lemmas compile_eval = compile_error_def in_model.simps unknown_keywords.simps keyword_value_ok_def
     modelled_keywords_def ajv_keywords_def simple_types_def object_prototype_names_def
     string_schema_def

lemmas schema_eval = schema_errors.simps type_errors_def enum_errors_def required_errors_def
     additionalProperties_errors_def minLength_errors_def minimum_errors_def minItems_errors_def
     group_errors_def group_used_def rules_for_def schema_types_def type_checked_first_def
     string_schema_def error_at_def escapeJsonPointer_def object_prototype_names_def
     string_of_nat.simps String_number_def format_error_def

lemma last_sorted_Max:
  fixes xs :: "int list"
  shows "sorted xs \<Longrightarrow> xs \<noteq> [] \<Longrightarrow> last xs = Max (set xs)"
proof (induction xs)
  case Nil
  then show ?case by simp
next
  case (Cons x xs)
  show ?case
  proof (cases "xs = []")
    case True
    then show ?thesis by simp
  next
    case False
    with Cons have "last xs = Max (set xs)" by simp
    moreover have "x \<le> Max (set xs)"
    proof -
      from False obtain a where a: "a \<in> set xs" by (cases xs) auto
      with Cons.prems have "x \<le> a" by simp
      also from a have "a \<le> Max (set xs)" by simp
      finally show ?thesis .
    qed
    ultimately show ?thesis using False by (simp add: max_def)
  qed
qed

lemma set_listTemplateVersions:
  "set (listTemplateVersions dir templateId) = stored_versions dir templateId"
  by (auto simp: listTemplateVersions_def stored_versions_def
      split: dir_entry.splits option.splits if_splits)

lemma getLatestVersion_Max:
  assumes "stored_versions dir templateId \<noteq> {}"
  shows "getLatestVersion dir templateId = Some (Max (stored_versions dir templateId))"
proof -
  let ?vs = "listTemplateVersions dir templateId"
  obtain ys where ys: "?vs = rev (sort ys)"
    by (simp add: listTemplateVersions_def)
  from assms have ne: "?vs \<noteq> []"
    using set_listTemplateVersions [of dir templateId] by auto
  then have "sort ys \<noteq> []" using ys by simp
  then have "last (sort ys) = Max (set (sort ys))"
    by (intro last_sorted_Max) simp_all
  then have "hd ?vs = Max (set ?vs)" using ys by (simp add: hd_rev)
  then show ?thesis
    using ne by (simp add: getLatestVersion_def set_listTemplateVersions)
qed

lemma template_schema_compiles: "compile_error TASK_TEMPLATE_SCHEMA = None"
  by (simp add: TASK_TEMPLATE_SCHEMA_def compile_eval)


lemma validateSchema_compiled:
  assumes "compile_error schema = None"
  shows "validateSchema schema data
       = Inr (schema_errors schema [] data = [], map format_error (schema_errors schema [] data))"
  using assms by (simp add: validateSchema_def ajv_compile_def createAjv_def Let_def)

lemma example_template_valid: "schema_errors TASK_TEMPLATE_SCHEMA [] example_template = []"
  by (simp add: TASK_TEMPLATE_SCHEMA_def example_template_def schema_eval)

lemma loadTemplate_stored:
  assumes "map_of dir (templateFilename templateId version) = Some (File (Document (JObj props)))"
    and "schema_errors TASK_TEMPLATE_SCHEMA [] (JObj props) = []"
  shows "loadTemplate dir templateId (Some version) = Inr (JObj props)"
  using assms
  by (simp add: loadTemplate_def readFile_def validateSchema_compiled [OF template_schema_compiles])

lemma example_template_loads:
  "loadTemplate [(''t@1.yaml'', File (Document example_template))] ''t'' (Some 1) = Inr example_template"
proof -
  have "map_of [(''t@1.yaml'', File (Document example_template))] (templateFilename ''t'' 1)
      = Some (File (Document example_template))"
    by (simp add: templateFilename_def String_number_def string_of_nat.simps)
  then show ?thesis
    using example_template_valid unfolding example_template_def by (rule loadTemplate_stored)
qed

lemma parseFilename_t1: "parseFilename ''t@1.yaml'' = Some (''t'', 1)"
  by (simp add: parseFilename_def strip_extension_def ends_with_def lower_def
      is_digit_def parseInt_def Let_def)

lemma parseFilename_t3: "parseFilename ''t@3.yaml'' = Some (''t'', 3)"
  by (simp add: parseFilename_def strip_extension_def ends_with_def lower_def
      is_digit_def parseInt_def Let_def)

lemma boolean_schema_ok:
  "schema_errors (JObj [(''type'', JStr ''boolean'')]) path (JBool b) = []"
  by (simp add: schema_eval)

lemma string_schema_ok:
  "schema_errors string_schema path (JStr s) = []"
  by (simp add: schema_eval)

lemma schema_errors_cases:
  "schema_errors (JObj kw) path data =
     (if type_checked_first kw then type_errors kw path data else []) @
     enum_errors kw path data @
     group_errors ''number'' kw path data
       (case data of JNum n \<Rightarrow> minimum_errors kw path n | _ \<Rightarrow> []) @
     group_errors ''string'' kw path data
       (case data of JStr s \<Rightarrow> minLength_errors kw path s | _ \<Rightarrow> []) @
     group_errors ''array'' kw path data
       (case data of
          JArr xs \<Rightarrow>
            minItems_errors kw path xs @
            (case map_of kw ''items'' of
               Some sub \<Rightarrow>
                 concat (map (\<lambda>(i, x). schema_errors sub (path @ ''/'' @ string_of_nat i) x)
                          (enumerate 0 xs))
             | None \<Rightarrow> [])
        | _ \<Rightarrow> []) @
     group_errors ''object'' kw path data
       (case data of
          JObj props \<Rightarrow>
            required_errors kw path props @
            additionalProperties_errors kw path props @
            (case map_of kw ''properties'' of
               Some (JObj ps) \<Rightarrow>
                 concat (map (\<lambda>(k, sub).
                           case map_of props k of
                             Some v \<Rightarrow> schema_errors sub (path @ ''/'' @ escapeJsonPointer k) v
                           | None \<Rightarrow> [])
                         ps)
             | _ \<Rightarrow> [])
        | _ \<Rightarrow> [])"
  by (subst schema_errors.simps) simp

lemma type_errors_object:
  "type_errors kw path (JObj props') = type_errors kw path (JObj props)"
  by (simp add: type_errors_def)

lemma group_errors_object:
  "group_errors t kw path (JObj props) body =
     (if t = ''object'' then (if group_used t kw then body else [])
      else if group_used t kw \<and> schema_types kw = [t] then type_errors kw path (JObj []) else [])"
  using type_errors_object [of kw path props "[]"] by (simp add: group_errors_def)

lemma schema_errors_object:
  assumes "map_of kw ''properties'' = Some (JObj ps)"
  shows "schema_errors (JObj kw) path (JObj props) =
     ((if type_checked_first kw then type_errors kw path (JObj []) else []) @
      enum_errors kw path (JObj props) @
      (if group_used ''number'' kw \<and> schema_types kw = [''number''] then type_errors kw path (JObj []) else []) @
      (if group_used ''string'' kw \<and> schema_types kw = [''string''] then type_errors kw path (JObj []) else []) @
      (if group_used ''array'' kw \<and> schema_types kw = [''array''] then type_errors kw path (JObj []) else [])) @
     required_errors kw path props @
     additionalProperties_errors kw path props @
     concat (map (\<lambda>(k, sub).
               case map_of props k of
                 Some v \<Rightarrow> schema_errors sub (path @ ''/'' @ escapeJsonPointer k) v
               | None \<Rightarrow> [])
             ps)"
proof -
  have used: "group_used ''object'' kw"
    using assms by (simp add: group_used_def rules_for_def)
  show ?thesis
    unfolding schema_errors_cases [of kw path "JObj props"] group_errors_object
    using used assms type_errors_object [of kw path props "[]"] by simp
qed

lemma required_errors_update:
  assumes "required_errors kw path props = []"
  shows "required_errors kw path (AList.update k v props) = []"
proof (cases "map_of kw ''required''")
  case None
  then show ?thesis by (simp add: required_errors_def)
next
  case (Some r)
  show ?thesis
  proof (cases r)
    case (JArr names)
    with Some assms have "\<forall>n \<in> set (strings_of names).
        map_of props n \<noteq> None \<or> n \<in> set object_prototype_names"
      by (simp add: required_errors_def filter_empty_conv)
    then have "\<forall>n \<in> set (strings_of names).
        map_of (AList.update k v props) n \<noteq> None \<or> n \<in> set object_prototype_names"
      by (auto simp: update_conv')
    with Some JArr show ?thesis by (simp add: required_errors_def filter_empty_conv)
  qed (use Some in \<open>simp_all add: required_errors_def\<close>)
qed

lemma object_valid_update:
  assumes valid: "schema_errors (JObj kw) path (JObj props) = []"
    and no_enum: "map_of kw ''enum'' = None"
    and extra: "map_of kw ''additionalProperties'' = Some (JBool True)"
    and ps: "map_of kw ''properties'' = Some (JObj ps)"
    and ok: "\<And>sub. (k, sub) \<in> set ps \<Longrightarrow> schema_errors sub (path @ ''/'' @ escapeJsonPointer k) v = []"
  shows "schema_errors (JObj kw) path (JObj (AList.update k v props)) = []"
proof -
  let ?F = "\<lambda>props (k, sub). case map_of props k of
               Some v \<Rightarrow> schema_errors sub (path @ ''/'' @ escapeJsonPointer k) v | None \<Rightarrow> []"
  let ?A = "\<lambda>props. (if type_checked_first kw then type_errors kw path (JObj []) else []) @
      enum_errors kw path (JObj props) @
      (if group_used ''number'' kw \<and> schema_types kw = [''number''] then type_errors kw path (JObj []) else []) @
      (if group_used ''string'' kw \<and> schema_types kw = [''string''] then type_errors kw path (JObj []) else []) @
      (if group_used ''array'' kw \<and> schema_types kw = [''array''] then type_errors kw path (JObj []) else [])"
  have en: "enum_errors kw path data = []" for data
    by (simp add: enum_errors_def no_enum)
  have ad: "additionalProperties_errors kw path q = []" for q
    by (simp add: additionalProperties_errors_def extra)
  from valid have "?A props @ required_errors kw path props @
      additionalProperties_errors kw path props @ concat (map (?F props) ps) = []"
    by (simp only: schema_errors_object [OF ps])
  then have t: "?A props = []"
    and r: "required_errors kw path props = []"
    and p: "\<forall>x \<in> set ps. ?F props x = []"
    by simp_all
  have t': "?A (AList.update k v props) = []"
    using t by (simp add: en)
  have r': "required_errors kw path (AList.update k v props) = []"
    using r by (rule required_errors_update)
  have p': "\<forall>x \<in> set ps. ?F (AList.update k v props) x = []"
  proof
    fix x assume x: "x \<in> set ps"
    obtain k' sub where xk: "x = (k', sub)" by (cases x)
    show "?F (AList.update k v props) x = []"
    proof (cases "k' = k")
      case True
      with x xk have "(k, sub) \<in> set ps" by simp
      then have "schema_errors sub (path @ ''/'' @ escapeJsonPointer k) v = []" by (rule ok)
      with True xk show ?thesis by (simp add: update_conv')
    next
      case False
      from p x have "?F props x = []" by (rule bspec)
      with False xk show ?thesis by (simp add: update_conv')
    qed
  qed
  have "?A (AList.update k v props) @ required_errors kw path (AList.update k v props)
      @ additionalProperties_errors kw path (AList.update k v props)
      @ concat (map (?F (AList.update k v props)) ps) = []"
    using t' r' p' by (simp add: ad)
  then show ?thesis
    by (simp only: schema_errors_object [OF ps])
qed

lemma template_schema_kw:
  "\<exists>kw. TASK_TEMPLATE_SCHEMA = JObj kw \<and> map_of kw ''enum'' = None
        \<and> map_of kw ''additionalProperties'' = Some (JBool True)
        \<and> map_of kw ''properties'' = Some (JObj template_properties)"
  by (simp add: TASK_TEMPLATE_SCHEMA_def template_properties_def)

lemma template_valid_update:
  assumes valid: "schema_errors TASK_TEMPLATE_SCHEMA path (JObj props) = []"
    and kv: "(k = ''active'' \<and> v = JBool b) \<or> (k = ''deprecated'' \<and> v = JBool b)
           \<or> (k = ''deprecated_at'' \<and> v = JStr s) \<or> (k = ''deprecated_reason'' \<and> v = JStr s)"
  shows "schema_errors TASK_TEMPLATE_SCHEMA path (JObj (AList.update k v props)) = []"
proof -
  from template_schema_kw obtain kw where kw: "TASK_TEMPLATE_SCHEMA = JObj kw"
    "map_of kw ''enum'' = None" "map_of kw ''additionalProperties'' = Some (JBool True)"
    "map_of kw ''properties'' = Some (JObj template_properties)"
    by (elim exE conjE)
  have ok: "schema_errors sub (path @ ''/'' @ escapeJsonPointer k) v = []"
    if "(k, sub) \<in> set template_properties" for sub
  proof -
    from kv consider "k = ''active''" "v = JBool b" | "k = ''deprecated''" "v = JBool b"
      | "k = ''deprecated_at''" "v = JStr s" | "k = ''deprecated_reason''" "v = JStr s"
      by (elim disjE conjE)
    then show ?thesis
    proof cases
      case 1
      with that have "sub = JObj [(''type'', JStr ''boolean'')]"
        by (simp add: template_properties_def TASK_TEMPLATE_SCHEMA_def)
      with 1 show ?thesis by (simp add: boolean_schema_ok)
    next
      case 2
      with that have "sub = JObj [(''type'', JStr ''boolean'')]"
        by (simp add: template_properties_def TASK_TEMPLATE_SCHEMA_def)
      with 2 show ?thesis by (simp add: boolean_schema_ok)
    next
      case 3
      with that have "sub = string_schema"
        by (simp add: template_properties_def TASK_TEMPLATE_SCHEMA_def)
      with 3 show ?thesis by (simp add: string_schema_ok)
    next
      case 4
      with that have "sub = string_schema"
        by (simp add: template_properties_def TASK_TEMPLATE_SCHEMA_def)
      with 4 show ?thesis by (simp add: string_schema_ok)
    qed
  qed
  from valid have "schema_errors (JObj kw) path (JObj props) = []"
    by (simp only: kw(1))
  then have "schema_errors (JObj kw) path (JObj (AList.update k v props)) = []"
    using kw(2,3,4) ok by (rule object_valid_update)
  then show ?thesis by (simp only: kw(1))
qed

lemma loadTemplate_Inr:
  assumes "loadTemplate dir templateId (Some version) = Inr template"
  shows "\<exists>props. template = JObj props
     \<and> map_of dir (templateFilename templateId version) = Some (File (Document template))
     \<and> schema_errors TASK_TEMPLATE_SCHEMA [] template = []"
proof -
  from assms have rd: "readFile dir (templateFilename templateId version) = Inr (Document template)"
    and rec: "isRecord template"
    and valid: "schema_errors TASK_TEMPLATE_SCHEMA [] template = []"
    by (auto simp: loadTemplate_def validateSchema_compiled [OF template_schema_compiles]
        split: sum.splits file_content.splits if_splits)
  from rec obtain props where "template = JObj props" by (cases template) auto
  moreover from rd have "map_of dir (templateFilename templateId version) = Some (File (Document template))"
    by (auto simp: readFile_def split: option.splits dir_entry.splits)
  ultimately show ?thesis using valid by simp
qed









text \<open>
  C5. \<open>loadTemplate\<close> with a version that is not stored: the template \<open>t\<close> has version 1
  only, version 2 is asked for, and the result is the error of the file system for the missing
  file \<^verbatim>\<open>t@2.yaml\<close>, not the domain error \<^verbatim>\<open>Task template not found\<close>.
\<close>

theorem loadTemplate_missing_version:
  "loadTemplate [(''t@1.yaml'', File (Document example_template))] ''t'' (Some 2)
     = Inl (StorageError ''ENOENT'' ''t@2.yaml'')"
  by (simp add: loadTemplate_def readFile_def templateFilename_def String_number_def
      string_of_nat.simps)

text \<open>
  C6. When the directory holds at least one version of a template id, \<open>loadTemplate\<close> without
  a version gives what \<open>loadTemplate\<close> gives for the greatest stored version of that id.
\<close>

theorem loadTemplate_latest_is_max:
  assumes "stored_versions dir templateId \<noteq> {}"
  shows "loadTemplate dir templateId None
       = loadTemplate dir templateId (Some (Max (stored_versions dir templateId)))"
  using getLatestVersion_Max [OF assms] by (simp add: loadTemplate_def)

theorem loadTemplate_latest_is_max_witness:
  "loadTemplate [(''t@1.yaml'', File (Document example_template)),
                 (''t@3.yaml'', File (Document (set_property ''version'' (JNum 3) example_template)))]
     ''t'' None = Inr (set_property ''version'' (JNum 3) example_template)"
proof -
  let ?dir = "[(''t@1.yaml'', File (Document example_template)),
               (''t@3.yaml'', File (Document (set_property ''version'' (JNum 3) example_template)))]"
  have "listTemplateVersions ?dir ''t'' = [3, 1]"
    by (simp add: listTemplateVersions_def parseFilename_t1 parseFilename_t3)
  then have sv: "stored_versions ?dir ''t'' = {1, 3}"
    by (simp add: set_listTemplateVersions [symmetric] insert_commute)
  then have ne: "stored_versions ?dir ''t'' \<noteq> {}" by simp
  have "schema_errors TASK_TEMPLATE_SCHEMA [] (set_property ''version'' (JNum 3) example_template) = []"
    by (simp add: TASK_TEMPLATE_SCHEMA_def example_template_def schema_eval)
  moreover have "map_of ?dir (templateFilename ''t'' 3)
      = Some (File (Document (set_property ''version'' (JNum 3) example_template)))"
    by (simp add: templateFilename_def String_number_def string_of_nat.simps)
  ultimately have "loadTemplate ?dir ''t'' (Some 3) = Inr (set_property ''version'' (JNum 3) example_template)"
    unfolding example_template_def set_property.simps by (intro loadTemplate_stored)
  with loadTemplate_latest_is_max [OF ne] show ?thesis by (simp add: sv)
qed

text \<open>
  C8. For a stored template version, \<open>deleteTemplate\<close> succeeds and writes back the document
  with \<open>active\<close> false, \<open>deprecated\<close> true, \<open>deprecated_at\<close> the time stamp and, when a
  non-blank reason is given, \<open>deprecated_reason\<close> that reason; every other property of the
  document is as it was, every other file is as it was, and the file is still there:
  \<open>loadTemplate\<close> of the same id and version returns the deprecated document.
\<close>

theorem deleteTemplate_deprecates:
  assumes load: "loadTemplate dir templateId (Some version) = Inr template"
  shows "\<exists>dir' doc.
      deleteTemplate now dir templateId version reason = (Inr (templateId, version, True), dir')
    \<and> get_property doc ''active'' = Some (JBool False)
    \<and> get_property doc ''deprecated'' = Some (JBool True)
    \<and> get_property doc ''deprecated_at'' = Some (JStr now)
    \<and> (\<forall>r. reason = Some r \<and> trim r \<noteq> [] \<longrightarrow> get_property doc ''deprecated_reason'' = Some (JStr r))
    \<and> (\<forall>k. k \<notin> {''active'', ''deprecated'', ''deprecated_at'', ''deprecated_reason''}
           \<longrightarrow> get_property doc k = get_property template k)
    \<and> readFile dir' (templateFilename templateId version) = Inr (Document doc)
    \<and> loadTemplate dir' templateId (Some version) = Inr doc
    \<and> (\<forall>name. name \<noteq> templateFilename templateId version \<longrightarrow> map_of dir' name = map_of dir name)"
proof -
  let ?f = "templateFilename templateId version"
  from loadTemplate_Inr [OF load] obtain props where tp: "template = JObj props"
    and stored: "map_of dir ?f = Some (File (Document template))"
    and valid: "schema_errors TASK_TEMPLATE_SCHEMA [] (JObj props) = []"
    by auto
  define given where "given = (case reason of Some r \<Rightarrow> r \<noteq> [] \<and> length (trim r) > 0 | None \<Rightarrow> False)"
  define p1 where "p1 = AList.update ''active'' (JBool False) props"
  define p2 where "p2 = AList.update ''deprecated'' (JBool True) p1"
  define p3 where "p3 = AList.update ''deprecated_at'' (JStr now) p2"
  define p4 where "p4 = (if given then AList.update ''deprecated_reason'' (JStr (the reason)) p3 else p3)"
  define dir' where "dir' = AList.update ?f (File (Document (JObj p4))) dir"
  have v1: "schema_errors TASK_TEMPLATE_SCHEMA [] (JObj p1) = []"
    unfolding p1_def using valid by (rule template_valid_update [where b = False and s = "[]"]) simp
  have v2: "schema_errors TASK_TEMPLATE_SCHEMA [] (JObj p2) = []"
    unfolding p2_def using v1 by (rule template_valid_update [where b = True and s = "[]"]) simp
  have v3: "schema_errors TASK_TEMPLATE_SCHEMA [] (JObj p3) = []"
    unfolding p3_def using v2 by (rule template_valid_update [where b = True and s = now]) simp
  have v4: "schema_errors TASK_TEMPLATE_SCHEMA [] (JObj p4) = []"
  proof (cases given)
    case True
    have "schema_errors TASK_TEMPLATE_SCHEMA [] (JObj (AList.update ''deprecated_reason'' (JStr (the reason)) p3)) = []"
      using v3 by (rule template_valid_update [where b = True and s = "the reason"]) simp
    with True show ?thesis by (simp add: p4_def)
  next
    case False
    with v3 show ?thesis by (simp add: p4_def)
  qed
  have t4: "(case reason of
               Some r \<Rightarrow> if r \<noteq> [] \<and> length (trim r) > 0
                         then set_property ''deprecated_reason'' (JStr r)
                                (set_property ''deprecated_at'' (JStr now)
                                  (set_property ''deprecated'' (JBool True)
                                    (set_property ''active'' (JBool False) template)))
                         else set_property ''deprecated_at'' (JStr now)
                                  (set_property ''deprecated'' (JBool True)
                                    (set_property ''active'' (JBool False) template))
             | None \<Rightarrow> set_property ''deprecated_at'' (JStr now)
                                  (set_property ''deprecated'' (JBool True)
                                    (set_property ''active'' (JBool False) template))) = JObj p4"
    by (cases reason) (simp_all add: tp p4_def p3_def p2_def p1_def given_def)
  have del: "deleteTemplate now dir templateId version reason = (Inr (templateId, version, True), dir')"
    using stored by (simp add: deleteTemplate_def load Let_def t4 writeFile_def dir'_def)
  have a: "get_property (JObj p4) ''active'' = Some (JBool False)"
    by (simp add: p4_def p3_def p2_def p1_def update_conv')
  have b: "get_property (JObj p4) ''deprecated'' = Some (JBool True)"
    by (simp add: p4_def p3_def p2_def p1_def update_conv')
  have c: "get_property (JObj p4) ''deprecated_at'' = Some (JStr now)"
    by (simp add: p4_def p3_def p2_def p1_def update_conv')
  have d: "\<forall>r. reason = Some r \<and> trim r \<noteq> [] \<longrightarrow> get_property (JObj p4) ''deprecated_reason'' = Some (JStr r)"
    by (auto simp: p4_def given_def update_conv' trim_def)
  have e: "\<forall>k. k \<notin> {''active'', ''deprecated'', ''deprecated_at'', ''deprecated_reason''}
           \<longrightarrow> get_property (JObj p4) k = get_property template k"
    by (simp add: p4_def p3_def p2_def p1_def update_conv' tp)
  have f: "map_of dir' ?f = Some (File (Document (JObj p4)))"
    by (simp add: dir'_def update_conv')
  then have g: "readFile dir' ?f = Inr (Document (JObj p4))"
    by (simp add: readFile_def)
  have h: "loadTemplate dir' templateId (Some version) = Inr (JObj p4)"
    using f v4 by (rule loadTemplate_stored)
  have i: "\<forall>name. name \<noteq> ?f \<longrightarrow> map_of dir' name = map_of dir name"
    by (simp add: dir'_def update_conv')
  from del a b c d e g h i show ?thesis
    by (intro exI [of _ dir'] exI [of _ "JObj p4"] conjI)
qed

theorem deleteTemplate_deprecates_witness:
  "\<exists>doc. loadTemplate (snd (deleteTemplate ''2025-12-13T00:00:00.000Z''
              [(''t@1.yaml'', File (Document example_template))] ''t'' 1 (Some ''superseded'')))
            ''t'' (Some 1) = Inr doc
     \<and> get_property doc ''active'' = Some (JBool False)
     \<and> get_property doc ''deprecated'' = Some (JBool True)
     \<and> get_property doc ''deprecated_at'' = Some (JStr ''2025-12-13T00:00:00.000Z'')
     \<and> get_property doc ''deprecated_reason'' = Some (JStr ''superseded'')
     \<and> get_property doc ''id'' = Some (JStr ''t'')"
proof -
  from deleteTemplate_deprecates [OF example_template_loads,
      of "''2025-12-13T00:00:00.000Z''" "Some ''superseded''"]
  obtain dir' doc where del: "deleteTemplate ''2025-12-13T00:00:00.000Z''
        [(''t@1.yaml'', File (Document example_template))] ''t'' 1 (Some ''superseded'')
        = (Inr (''t'', 1, True), dir')"
    and a: "get_property doc ''active'' = Some (JBool False)"
    and b: "get_property doc ''deprecated'' = Some (JBool True)"
    and c: "get_property doc ''deprecated_at'' = Some (JStr ''2025-12-13T00:00:00.000Z'')"
    and d: "\<forall>r. Some ''superseded'' = Some r \<and> trim r \<noteq> []
              \<longrightarrow> get_property doc ''deprecated_reason'' = Some (JStr r)"
    and e: "\<forall>k. k \<notin> {''active'', ''deprecated'', ''deprecated_at'', ''deprecated_reason''}
              \<longrightarrow> get_property doc k = get_property example_template k"
    and h: "loadTemplate dir' ''t'' (Some 1) = Inr doc"
    by (elim exE conjE)
  have "trim ''superseded'' \<noteq> []"
    by (simp add: trim_def is_space_def white_space_code_units_def)
  with d have d': "get_property doc ''deprecated_reason'' = Some (JStr ''superseded'')" by simp
  from e [rule_format, of "''id''"] have e': "get_property doc ''id'' = Some (JStr ''t'')"
    by (simp add: example_template_def)
  from h have h': "loadTemplate (snd (deleteTemplate ''2025-12-13T00:00:00.000Z''
              [(''t@1.yaml'', File (Document example_template))] ''t'' 1 (Some ''superseded'')))
            ''t'' (Some 1) = Inr doc"
    by (simp add: del)
  from h' a b c d' e' show ?thesis by (intro exI [of _ doc] conjI)
qed

text \<open>
  A reason of white space only is not stored, whatever the white space is: here a no-break
  space and a space.
\<close>

lemma deleteTemplate_blank_reason:
  "\<exists>doc. readFile (snd (deleteTemplate ''2025-12-13T00:00:00.000Z''
              [(''t@1.yaml'', File (Document example_template))] ''t'' 1 (Some [CHR 0xA0, CHR 0x20])))
            ''t@1.yaml'' = Inr (Document doc)
     \<and> get_property doc ''deprecated'' = Some (JBool True)
     \<and> get_property doc ''deprecated_reason'' = None"
proof -
  have blank: "trim [CHR 0xA0, CHR 0x20] = []"
    by (simp add: trim_def is_space_def white_space_code_units_def)
  have del: "snd (deleteTemplate ''2025-12-13T00:00:00.000Z''
              [(''t@1.yaml'', File (Document example_template))] ''t'' 1 (Some [CHR 0xA0, CHR 0x20]))
      = [(''t@1.yaml'', File (Document
           (set_property ''deprecated_at'' (JStr ''2025-12-13T00:00:00.000Z'')
             (set_property ''deprecated'' (JBool True)
               (set_property ''active'' (JBool False) example_template)))))]"
    by (simp add: deleteTemplate_def example_template_loads Let_def blank writeFile_def
        templateFilename_def String_number_def string_of_nat.simps)
  show ?thesis
    unfolding del by (simp add: readFile_def example_template_def)
qed

section \<open>Properties of profile resolution\<close>

lemma resolveProfiles_diamond_order:
  "map_sum id (map profile_id) (resolveProfiles (example_store [(''a'', [''b'', ''c'']), (''b'', [''d'']), (''c'', [''d'']), (''d'', [])]) [''a''])
    = Inr [''d'', ''b'', ''c'', ''a'']"
  by (simp add: resolveProfiles_def visit.simps example_store_def loadProfile_def profilePath_def
      replaceAll_def replaceAll_from.simps readFile_def relations_of_def Let_def)

lemma resolveProfiles_direct_cycle:
  "resolveProfiles (example_store [(''a'', [''b'']), (''b'', [''a''])]) [''a'']
    = Inl (CycleError ''Cycle detected in domain profile inheritance at: a'')"
  by (simp add: resolveProfiles_def visit.simps example_store_def loadProfile_def profilePath_def
      replaceAll_def replaceAll_from.simps readFile_def relations_of_def Let_def cycle_message_def)

lemma resolveProfiles_missing_profile:
  "resolveProfiles (example_store [(''a'', [''zz'', ''a''])]) [''a'']
    = Inl (NotFound (''Profile '' @ [CHR 0x27] @ ''zz'' @ [CHR 0x27] @ '' not found''))"
  by (simp add: resolveProfiles_def visit.simps example_store_def loadProfile_def profilePath_def
      replaceAll_def replaceAll_from.simps readFile_def relations_of_def Let_def cycle_message_def)

lemma visit_Inr_cases:
  assumes "visit store ident st = Inr st'"
  shows "(ident \<in> visited st \<and> st' = st)
       \<or> (ident \<notin> visited st \<and> ident \<notin> visiting st
          \<and> (\<exists>p st2. loadProfile store ident = Inr p
                \<and> visit_relations store (relations_of (profile p))
                      (st\<lparr>visiting := insert ident (visiting st)\<rparr>) = Inr st2
                \<and> st' = st2\<lparr>visiting := visiting st2 - {ident},
                             visited := insert ident (visited st2),
                             resolved := resolved st2 @ [p]\<rparr>))"
  using assms
  by (subst (asm) visit.simps) (auto simp: Let_def split: if_splits sum.splits)

lemma visit_Inl_cases:
  assumes "visit store ident st = Inl err"
  shows "ident \<notin> visited st
       \<and> ((ident \<in> visiting st \<and> err = CycleError (cycle_message ident))
          \<or> (ident \<notin> visiting st
             \<and> (loadProfile store ident = Inl err
                \<or> (\<exists>p. loadProfile store ident = Inr p
                     \<and> visit_relations store (relations_of (profile p))
                          (st\<lparr>visiting := insert ident (visiting st)\<rparr>) = Inl err))))"
  using assms
  by (subst (asm) visit.simps) (auto simp: Let_def split: if_splits sum.splits)

lemma visit_relations_Inr_cases:
  assumes "visit_relations store (r # rs) st = Inr st'"
  shows "(inherits_target r = None \<and> visit_relations store rs st = Inr st')
       \<or> (\<exists>target st1. inherits_target r = Some target \<and> visit store target st = Inr st1
             \<and> visit_relations store rs st1 = Inr st')"
  using assms by (auto split: option.splits sum.splits)

lemma visit_relations_Inl_cases:
  assumes "visit_relations store (r # rs) st = Inl err"
  shows "(inherits_target r = None \<and> visit_relations store rs st = Inl err)
       \<or> (\<exists>target. inherits_target r = Some target
             \<and> (visit store target st = Inl err
                \<or> (\<exists>st1. visit store target st = Inr st1 \<and> visit_relations store rs st1 = Inl err)))"
  using assms by (auto split: option.splits sum.splits)

lemma before_append: "before xs a b \<Longrightarrow> before (xs @ ys) a b"
  by (auto simp: before_def takeWhile_append dest: set_takeWhileD)

lemma before_snoc: "b \<notin> set xs \<Longrightarrow> a \<in> set xs \<Longrightarrow> before (xs @ [b]) a b"
  by (auto simp: before_def takeWhile_append)


lemma before_trans: "before xs a b \<Longrightarrow> before xs b c \<Longrightarrow> before xs a c"
  unfolding before_def by (induction xs) (auto split: if_splits)

lemma before_member: "before xs a b \<Longrightarrow> a \<in> set xs"
  by (auto simp: before_def dest: set_takeWhileD)

lemma before_index:
  "before xs a b \<Longrightarrow> b \<in> set xs \<Longrightarrow> \<exists>i j. i < j \<and> j < length xs \<and> xs ! i = a \<and> xs ! j = b"
proof (induction xs)
  case Nil
  then show ?case by simp
next
  case (Cons x xs)
  from Cons.prems(1) have xb: "x \<noteq> b" by (auto simp: before_def split: if_splits)
  with Cons.prems(2) have b: "b \<in> set xs" by simp
  show ?case
  proof (cases "before xs a b")
    case True
    with Cons.IH b obtain i j where "i < j" "j < length xs" "xs ! i = a" "xs ! j = b" by blast
    then have "Suc i < Suc j \<and> Suc j < length (x # xs) \<and> (x # xs) ! Suc i = a \<and> (x # xs) ! Suc j = b"
      by simp
    then show ?thesis by blast
  next
    case False
    with Cons.prems(1) xb have "a = x" by (auto simp: before_def)
    moreover from b obtain j where "j < length xs" "xs ! j = b" by (auto simp: in_set_conv_nth)
    ultimately have "0 < Suc j \<and> Suc j < length (x # xs) \<and> (x # xs) ! 0 = a \<and> (x # xs) ! Suc j = b"
      by simp
    then show ?thesis by blast
  qed
qed

lemma step_ok_refl: "step_ok store st st"
  by (simp add: step_ok_def)

lemma step_ok_trans: "step_ok store st st1 \<Longrightarrow> step_ok store st1 st2 \<Longrightarrow> step_ok store st st2"
  unfolding step_ok_def by (intro conjI) auto

lemma inherits_targets:
  "loadProfile store ident = Inr p \<Longrightarrow>
   (ident, v) \<in> inherits store \<longleftrightarrow> v \<in> set (relation_targets (relations_of (profile p)))"
  by (simp add: inherits_def profile_targets_def)

lemma visit_finish:
  assumes nv: "ident \<notin> visited st" and ng: "ident \<notin> visiting st"
    and p: "loadProfile store ident = Inr p"
    and ok: "step_ok store (st\<lparr>visiting := insert ident (visiting st)\<rparr>) st2"
    and ts: "set (relation_targets (relations_of (profile p))) \<subseteq> visited st2"
  shows "step_ok store st (st2\<lparr>visiting := visiting st2 - {ident},
            visited := insert ident (visited st2), resolved := resolved st2 @ [p]\<rparr>)"
proof -
  let ?st' = "st2\<lparr>visiting := visiting st2 - {ident},
            visited := insert ident (visited st2), resolved := resolved st2 @ [p]\<rparr>"
  from ok have v2: "visiting st2 = insert ident (visiting st)"
    and mono: "visited st \<subseteq> visited st2"
    and new: "(visited st2 - visited st) \<inter> insert ident (visiting st) = {}"
    and inv2: "resolve_inv store st \<Longrightarrow> resolve_inv store st2"
    by (auto simp: step_ok_def resolve_inv_def resolved_ids_def)
  from new nv have fresh: "ident \<notin> visited st2" by auto
  have a: "visiting ?st' = visiting st" using v2 ng by auto
  have b: "visited st \<subseteq> visited ?st'" using mono by auto
  have c: "(visited ?st' - visited st) \<inter> visiting st = {}" using new ng by auto
  have d: "resolve_inv store ?st'" if "resolve_inv store st"
  proof -
    from that have i2: "resolve_inv store st2" by (rule inv2)
    then have dist: "distinct (resolved_ids st2)" and ids: "set (resolved_ids st2) = visited st2"
      and ord: "\<And>u v. u \<in> visited st2 \<Longrightarrow> (u, v) \<in> inherits store \<Longrightarrow> before (resolved_ids st2) v u"
      by (auto simp: resolve_inv_def)
    have ids': "resolved_ids ?st' = resolved_ids st2 @ [ident]"
      using loadProfile_id [OF p] by (simp add: resolved_ids_def)
    have 1: "distinct (resolved_ids ?st')" using dist fresh ids by (simp add: ids')
    have 2: "set (resolved_ids ?st') = visited ?st'" using ids by (simp add: ids')
    have 3: "before (resolved_ids ?st') v u" if u: "u \<in> visited ?st'" and e: "(u, v) \<in> inherits store" for u v
    proof (cases "u = ident")
      case True
      with e have "v \<in> set (relation_targets (relations_of (profile p)))"
        by (simp add: inherits_targets [OF p])
      with ts ids have "v \<in> set (resolved_ids st2)" by auto
      moreover from fresh ids have "ident \<notin> set (resolved_ids st2)" by simp
      ultimately show ?thesis unfolding ids' True by (rule before_snoc [rotated])
    next
      case False
      with u have "u \<in> visited st2" by simp
      from ord [OF this e] show ?thesis unfolding ids' by (rule before_append)
    qed
    from 1 2 3 show ?thesis unfolding resolve_inv_def by blast
  qed
  from a b c d show ?thesis unfolding step_ok_def by blast
qed

lemma visit_success:
  shows "\<forall>st'. visit store ident st = Inr st' \<longrightarrow> step_ok store st st' \<and> ident \<in> visited st'"
    and "\<forall>st'. visit_relations store rs st = Inr st' \<longrightarrow>
           step_ok store st st' \<and> set (relation_targets rs) \<subseteq> visited st'"
proof (induct store ident st and store rs st rule: visit_visit_relations.induct)
  case (1 store ident st)
  show ?case
  proof (intro allI impI)
    fix st' assume r: "visit store ident st = Inr st'"
    from visit_Inr_cases [OF r] show "step_ok store st st' \<and> ident \<in> visited st'"
    proof (elim disjE conjE exE)
      assume "ident \<in> visited st" "st' = st"
      then show ?thesis by (simp add: step_ok_refl)
    next
      fix p st2
      assume nv: "ident \<notin> visited st" and ng: "ident \<notin> visiting st"
        and p: "loadProfile store ident = Inr p"
        and c: "visit_relations store (relations_of (profile p))
                  (st\<lparr>visiting := insert ident (visiting st)\<rparr>) = Inr st2"
        and st': "st' = st2\<lparr>visiting := visiting st2 - {ident},
                             visited := insert ident (visited st2),
                             resolved := resolved st2 @ [p]\<rparr>"
      from 1 [OF nv ng refl p] c
      have ok: "step_ok store (st\<lparr>visiting := insert ident (visiting st)\<rparr>) st2"
        and ts: "set (relation_targets (relations_of (profile p))) \<subseteq> visited st2"
        by simp_all
      from visit_finish [OF nv ng p ok ts] show ?thesis by (simp add: st')
    qed
  qed
next
  case (2 store st)
  show ?case by (simp add: step_ok_refl)
next
  case (3 store r rs st)
  show ?case
  proof (intro allI impI)
    fix st' assume r: "visit_relations store (r # rs) st = Inr st'"
    from visit_relations_Inr_cases [OF r]
    show "step_ok store st st' \<and> set (relation_targets (r # rs)) \<subseteq> visited st'"
    proof (elim disjE conjE exE)
      assume n: "inherits_target r = None" and c: "visit_relations store rs st = Inr st'"
      from 3(1) [OF n] c show ?thesis by (simp add: n)
    next
      fix target st1
      assume t: "inherits_target r = Some target" and a: "visit store target st = Inr st1"
        and c: "visit_relations store rs st1 = Inr st'"
      from 3(2) [OF t] a have ok1: "step_ok store st st1" and tv: "target \<in> visited st1" by simp_all
      from 3(3) [OF t a] c have ok2: "step_ok store st1 st'"
        and ts: "set (relation_targets rs) \<subseteq> visited st'" by simp_all
      from ok2 tv have "target \<in> visited st'" by (auto simp: step_ok_def)
      with ts step_ok_trans [OF ok1 ok2] show ?thesis by (simp add: t)
    qed
  qed
qed

lemma loadProfile_not_cycle: "loadProfile store ident \<noteq> Inl (CycleError m)"
proof (cases "map_of (profile_files store) (profilePath store ident)")
  case None
  then show ?thesis by (simp add: loadProfile_def readFile_def Let_def)
next
  case (Some e)
  show ?thesis
  proof (cases e)
    case Dir
    with Some show ?thesis by (simp add: loadProfile_def readFile_def Let_def)
  next
    case (File content)
    show ?thesis
    proof (cases content)
      case (Malformed msg)
      with Some File show ?thesis by (simp add: loadProfile_def readFile_def Let_def)
    next
      case (Document doc)
      with Some File show ?thesis
        by (cases "isRecord doc") (simp_all add: loadProfile_def readFile_def Let_def)
    qed
  qed
qed

lemma visit_cycle_sound:
  shows "\<forall>m. visit store ident st = Inl (CycleError m) \<longrightarrow>
           (\<forall>v \<in> visiting st. (v, ident) \<in> (inherits store)\<^sup>+) \<longrightarrow>
           (\<exists>c. m = cycle_message c \<and> (c, c) \<in> (inherits store)\<^sup>+ \<and> (ident, c) \<in> (inherits store)\<^sup>*)"
    and "\<forall>m. visit_relations store rs st = Inl (CycleError m) \<longrightarrow>
           (\<forall>v \<in> visiting st. \<forall>t \<in> set (relation_targets rs). (v, t) \<in> (inherits store)\<^sup>+) \<longrightarrow>
           (\<exists>c t. m = cycle_message c \<and> (c, c) \<in> (inherits store)\<^sup>+
                  \<and> t \<in> set (relation_targets rs) \<and> (t, c) \<in> (inherits store)\<^sup>*)"
proof (induct store ident st and store rs st rule: visit_visit_relations.induct)
  case (1 store ident st)
  show ?case
  proof (intro allI impI)
    fix m
    assume r: "visit store ident st = Inl (CycleError m)"
      and stack: "\<forall>v \<in> visiting st. (v, ident) \<in> (inherits store)\<^sup>+"
    from visit_Inl_cases [OF r] have nv: "ident \<notin> visited st"
      and alt: "(ident \<in> visiting st \<and> CycleError m = CycleError (cycle_message ident))
          \<or> (ident \<notin> visiting st
             \<and> (loadProfile store ident = Inl (CycleError m)
                \<or> (\<exists>p. loadProfile store ident = Inr p
                     \<and> visit_relations store (relations_of (profile p))
                          (st\<lparr>visiting := insert ident (visiting st)\<rparr>) = Inl (CycleError m))))"
      by simp_all
    from alt show "\<exists>c. m = cycle_message c \<and> (c, c) \<in> (inherits store)\<^sup>+
        \<and> (ident, c) \<in> (inherits store)\<^sup>*"
    proof (elim disjE conjE exE)
      assume "ident \<in> visiting st" and "CycleError m = CycleError (cycle_message ident)"
      with stack have "m = cycle_message ident \<and> (ident, ident) \<in> (inherits store)\<^sup>+
          \<and> (ident, ident) \<in> (inherits store)\<^sup>*" by simp
      then show ?thesis by (rule exI)
    next
      assume "loadProfile store ident = Inl (CycleError m)"
      then show ?thesis by (simp add: loadProfile_not_cycle)
    next
      fix p
      assume ng: "ident \<notin> visiting st" and p: "loadProfile store ident = Inr p"
        and c: "visit_relations store (relations_of (profile p))
                  (st\<lparr>visiting := insert ident (visiting st)\<rparr>) = Inl (CycleError m)"
      have edge: "(ident, t) \<in> inherits store"
        if "t \<in> set (relation_targets (relations_of (profile p)))" for t
        using that by (simp add: inherits_targets [OF p])
      have "\<forall>v \<in> visiting (st\<lparr>visiting := insert ident (visiting st)\<rparr>).
              \<forall>t \<in> set (relation_targets (relations_of (profile p))). (v, t) \<in> (inherits store)\<^sup>+"
      proof (intro ballI)
        fix v t
        assume v: "v \<in> visiting (st\<lparr>visiting := insert ident (visiting st)\<rparr>)"
          and t: "t \<in> set (relation_targets (relations_of (profile p)))"
        show "(v, t) \<in> (inherits store)\<^sup>+"
        proof (cases "v = ident")
          case True
          with edge [OF t] show ?thesis by (simp add: r_into_trancl)
        next
          case False
          with v stack have "(v, ident) \<in> (inherits store)\<^sup>+" by simp
          with edge [OF t] show ?thesis by (rule trancl_into_trancl [rotated])
        qed
      qed
      with 1 [OF nv ng refl p] c obtain cyc t where m: "m = cycle_message cyc"
        and cc: "(cyc, cyc) \<in> (inherits store)\<^sup>+"
        and t: "t \<in> set (relation_targets (relations_of (profile p)))"
        and tc: "(t, cyc) \<in> (inherits store)\<^sup>*"
        by blast
      from edge [OF t] tc have "(ident, cyc) \<in> (inherits store)\<^sup>*"
        by (rule converse_rtrancl_into_rtrancl)
      with m cc show ?thesis by blast
    qed
  qed
next
  case (2 store st)
  show ?case by simp
next
  case (3 store r rs st)
  show ?case
  proof (intro allI impI)
    fix m
    assume r: "visit_relations store (r # rs) st = Inl (CycleError m)"
      and stack: "\<forall>v \<in> visiting st. \<forall>t \<in> set (relation_targets (r # rs)). (v, t) \<in> (inherits store)\<^sup>+"
    from visit_relations_Inl_cases [OF r]
    show "\<exists>c t. m = cycle_message c \<and> (c, c) \<in> (inherits store)\<^sup>+
        \<and> t \<in> set (relation_targets (r # rs)) \<and> (t, c) \<in> (inherits store)\<^sup>*"
    proof (elim disjE conjE exE)
      assume n: "inherits_target r = None" and c: "visit_relations store rs st = Inl (CycleError m)"
      from stack n have "\<forall>v \<in> visiting st. \<forall>t \<in> set (relation_targets rs). (v, t) \<in> (inherits store)\<^sup>+"
        by simp
      with 3(1) [OF n] c show ?thesis by (simp add: n)
    next
      fix target
      assume t: "inherits_target r = Some target" and a: "visit store target st = Inl (CycleError m)"
      from stack t have "\<forall>v \<in> visiting st. (v, target) \<in> (inherits store)\<^sup>+" by simp
      with 3(2) [OF t] a obtain cyc where "m = cycle_message cyc" "(cyc, cyc) \<in> (inherits store)\<^sup>+"
        "(target, cyc) \<in> (inherits store)\<^sup>*" by blast
      then have "m = cycle_message cyc \<and> (cyc, cyc) \<in> (inherits store)\<^sup>+
          \<and> target \<in> set (relation_targets (r # rs)) \<and> (target, cyc) \<in> (inherits store)\<^sup>*"
        by (simp add: t)
      then show ?thesis by blast
    next
      fix target st1
      assume t: "inherits_target r = Some target" and a: "visit store target st = Inr st1"
        and c: "visit_relations store rs st1 = Inl (CycleError m)"
      from visit_success(1) [of store target st] a have "visiting st1 = visiting st"
        by (simp add: step_ok_def)
      with stack t have "\<forall>v \<in> visiting st1. \<forall>t \<in> set (relation_targets rs). (v, t) \<in> (inherits store)\<^sup>+"
        by simp
      with 3(3) [OF t a] c obtain cyc t' where "m = cycle_message cyc" "(cyc, cyc) \<in> (inherits store)\<^sup>+"
        "t' \<in> set (relation_targets rs)" "(t', cyc) \<in> (inherits store)\<^sup>*" by blast
      then have "m = cycle_message cyc \<and> (cyc, cyc) \<in> (inherits store)\<^sup>+
          \<and> t' \<in> set (relation_targets (r # rs)) \<and> (t', cyc) \<in> (inherits store)\<^sup>*"
        by (simp add: t)
      then show ?thesis by blast
    qed
  qed
qed

lemma visit_error_is_cycle:
  shows "\<forall>err. visit store ident st = Inl err \<longrightarrow>
           (\<forall>y. (ident, y) \<in> (inherits store)\<^sup>* \<longrightarrow> (\<exists>p. loadProfile store y = Inr p)) \<longrightarrow>
           (\<exists>m. err = CycleError m)"
    and "\<forall>err. visit_relations store rs st = Inl err \<longrightarrow>
           (\<forall>t \<in> set (relation_targets rs). \<forall>y. (t, y) \<in> (inherits store)\<^sup>* \<longrightarrow>
               (\<exists>p. loadProfile store y = Inr p)) \<longrightarrow>
           (\<exists>m. err = CycleError m)"
proof (induct store ident st and store rs st rule: visit_visit_relations.induct)
  case (1 store ident st)
  show ?case
  proof (intro allI impI)
    fix err
    assume r: "visit store ident st = Inl err"
      and closed: "\<forall>y. (ident, y) \<in> (inherits store)\<^sup>* \<longrightarrow> (\<exists>p. loadProfile store y = Inr p)"
    from visit_Inl_cases [OF r] have nv: "ident \<notin> visited st"
      and alt: "(ident \<in> visiting st \<and> err = CycleError (cycle_message ident))
          \<or> (ident \<notin> visiting st
             \<and> (loadProfile store ident = Inl err
                \<or> (\<exists>p. loadProfile store ident = Inr p
                     \<and> visit_relations store (relations_of (profile p))
                          (st\<lparr>visiting := insert ident (visiting st)\<rparr>) = Inl err)))"
      by simp_all
    from alt show "\<exists>m. err = CycleError m"
    proof (elim disjE conjE exE)
      assume "err = CycleError (cycle_message ident)"
      then show ?thesis by (rule exI)
    next
      assume l: "loadProfile store ident = Inl err"
      from closed have "\<exists>p. loadProfile store ident = Inr p" by simp
      with l show ?thesis by simp
    next
      fix p
      assume ng: "ident \<notin> visiting st" and p: "loadProfile store ident = Inr p"
        and c: "visit_relations store (relations_of (profile p))
                  (st\<lparr>visiting := insert ident (visiting st)\<rparr>) = Inl err"
      have "\<forall>t \<in> set (relation_targets (relations_of (profile p))).
              \<forall>y. (t, y) \<in> (inherits store)\<^sup>* \<longrightarrow> (\<exists>p. loadProfile store y = Inr p)"
      proof (intro ballI allI impI)
        fix t y
        assume "t \<in> set (relation_targets (relations_of (profile p)))"
          and ty: "(t, y) \<in> (inherits store)\<^sup>*"
        then have "(ident, t) \<in> inherits store" by (simp add: inherits_targets [OF p])
        from this ty have "(ident, y) \<in> (inherits store)\<^sup>*" by (rule converse_rtrancl_into_rtrancl)
        with closed show "\<exists>p. loadProfile store y = Inr p" by simp
      qed
      with 1 [OF nv ng refl p] c show ?thesis by blast
    qed
  qed
next
  case (2 store st)
  show ?case by simp
next
  case (3 store r rs st)
  show ?case
  proof (intro allI impI)
    fix err
    assume r: "visit_relations store (r # rs) st = Inl err"
      and closed: "\<forall>t \<in> set (relation_targets (r # rs)). \<forall>y. (t, y) \<in> (inherits store)\<^sup>* \<longrightarrow>
               (\<exists>p. loadProfile store y = Inr p)"
    from visit_relations_Inl_cases [OF r] show "\<exists>m. err = CycleError m"
    proof (elim disjE conjE exE)
      assume n: "inherits_target r = None" and c: "visit_relations store rs st = Inl err"
      from closed n have "\<forall>t \<in> set (relation_targets rs). \<forall>y. (t, y) \<in> (inherits store)\<^sup>* \<longrightarrow>
               (\<exists>p. loadProfile store y = Inr p)" by simp
      with 3(1) [OF n] c show ?thesis by blast
    next
      fix target
      assume t: "inherits_target r = Some target" and a: "visit store target st = Inl err"
      from closed t have "\<forall>y. (target, y) \<in> (inherits store)\<^sup>* \<longrightarrow> (\<exists>p. loadProfile store y = Inr p)"
        by simp
      with 3(2) [OF t] a show ?thesis by blast
    next
      fix target st1
      assume t: "inherits_target r = Some target" and a: "visit store target st = Inr st1"
        and c: "visit_relations store rs st1 = Inl err"
      from closed t have "\<forall>t \<in> set (relation_targets rs). \<forall>y. (t, y) \<in> (inherits store)\<^sup>* \<longrightarrow>
               (\<exists>p. loadProfile store y = Inr p)" by simp
      with 3(3) [OF t a] c show ?thesis by blast
    qed
  qed
qed

lemma visit_entries_success:
  "visit_entries store idents st = Inr st' \<Longrightarrow> step_ok store st st' \<and> set idents \<subseteq> visited st'"
proof (induction idents arbitrary: st)
  case Nil
  then show ?case by (simp add: step_ok_refl)
next
  case (Cons ident idents)
  from Cons.prems obtain st1 where a: "visit store ident st = Inr st1"
    and b: "visit_entries store idents st1 = Inr st'"
    by (auto split: sum.splits)
  from visit_success(1) [of store ident st] a have ok1: "step_ok store st st1"
    and iv: "ident \<in> visited st1" by simp_all
  from Cons.IH [OF b] have ok2: "step_ok store st1 st'" and rest: "set idents \<subseteq> visited st'"
    by simp_all
  from ok2 iv have "ident \<in> visited st'" by (auto simp: step_ok_def)
  with rest step_ok_trans [OF ok1 ok2] show ?case by simp
qed

lemma visit_entries_cycle_sound:
  "visit_entries store idents st = Inl (CycleError m) \<Longrightarrow> visiting st = {} \<Longrightarrow>
   \<exists>c e. m = cycle_message c \<and> (c, c) \<in> (inherits store)\<^sup>+ \<and> e \<in> set idents
         \<and> (e, c) \<in> (inherits store)\<^sup>*"
proof (induction idents arbitrary: st)
  case Nil
  then show ?case by simp
next
  case (Cons ident idents)
  show ?case
  proof (cases "visit store ident st")
    case (Inl err)
    with Cons.prems(1) have "visit store ident st = Inl (CycleError m)" by simp
    with visit_cycle_sound(1) [of store ident st] Cons.prems(2)
    obtain c where "m = cycle_message c" "(c, c) \<in> (inherits store)\<^sup>+" "(ident, c) \<in> (inherits store)\<^sup>*"
      by auto
    then have "m = cycle_message c \<and> (c, c) \<in> (inherits store)\<^sup>+ \<and> ident \<in> set (ident # idents)
        \<and> (ident, c) \<in> (inherits store)\<^sup>*" by simp
    then show ?thesis by blast
  next
    case (Inr st1)
    with Cons.prems(1) have b: "visit_entries store idents st1 = Inl (CycleError m)" by simp
    from visit_success(1) [of store ident st] Inr Cons.prems(2) have "visiting st1 = {}"
      by (simp add: step_ok_def)
    from Cons.IH [OF b this] obtain c e where "m = cycle_message c" "(c, c) \<in> (inherits store)\<^sup>+"
      "e \<in> set idents" "(e, c) \<in> (inherits store)\<^sup>*" by blast
    then have "m = cycle_message c \<and> (c, c) \<in> (inherits store)\<^sup>+ \<and> e \<in> set (ident # idents)
        \<and> (e, c) \<in> (inherits store)\<^sup>*" by simp
    then show ?thesis by blast
  qed
qed

lemma visit_entries_error_is_cycle:
  "visit_entries store idents st = Inl err \<Longrightarrow>
   \<forall>e \<in> set idents. \<forall>y. (e, y) \<in> (inherits store)\<^sup>* \<longrightarrow> (\<exists>p. loadProfile store y = Inr p) \<Longrightarrow>
   \<exists>m. err = CycleError m"
proof (induction idents arbitrary: st)
  case Nil
  then show ?case by simp
next
  case (Cons ident idents)
  show ?case
  proof (cases "visit store ident st")
    case (Inl err')
    with Cons.prems(1) have "visit store ident st = Inl err" by simp
    with visit_error_is_cycle(1) [of store ident st] Cons.prems(2) show ?thesis by simp
  next
    case (Inr st1)
    with Cons.prems(1) have "visit_entries store idents st1 = Inl err" by simp
    with Cons.IH [of st1] Cons.prems(2) show ?thesis by simp
  qed
qed

lemma resolve_inv_trancl:
  assumes inv: "resolve_inv store st" and u: "u \<in> visited st"
    and uv: "(u, v) \<in> (inherits store)\<^sup>+"
  shows "before (resolved_ids st) v u"
  using uv
proof (induction rule: trancl_induct)
  case (base y)
  with inv u show ?case by (simp add: resolve_inv_def)
next
  case (step y z)
  from step.IH have "y \<in> set (resolved_ids st)" by (rule before_member)
  with inv have "y \<in> visited st" by (simp add: resolve_inv_def)
  with inv step.hyps(2) have "before (resolved_ids st) z y" by (simp add: resolve_inv_def)
  from this step.IH show ?case by (rule before_trans)
qed


lemma resolve_inv_initial: "resolve_inv store \<lparr>resolved = [], visiting = {}, visited = {}\<rparr>"
  by (simp add: resolve_inv_def resolved_ids_def)

lemma resolveProfiles_Inr:
  assumes "resolveProfiles store entries = Inr ps"
  shows "\<exists>st. resolved st = ps \<and> resolve_inv store st \<and> set entries \<subseteq> visited st"
proof -
  let ?init = "\<lparr>resolved = [], visiting = {}, visited = {}\<rparr>"
  from assms obtain st where v: "visit_entries store entries ?init = Inr st" and ps: "resolved st = ps"
    by (auto simp: resolveProfiles_def split: sum.splits)
  from visit_entries_success [OF v] resolve_inv_initial [of store]
  have "resolve_inv store st" and "set entries \<subseteq> visited st"
    by (simp_all add: step_ok_def)
  with ps show ?thesis by blast
qed

lemma reachable_within:
  assumes step: "\<And>y z. y \<in> R \<Longrightarrow> (y, z) \<in> E \<Longrightarrow> z \<in> R"
    and x: "x \<in> R" and xy: "(x, y) \<in> E\<^sup>*"
  shows "y \<in> R"
  using xy x by (induction rule: rtrancl_induct) (auto intro: step)

lemma ranked_no_cycle:
  fixes rank :: "'a \<Rightarrow> nat"
  assumes step: "\<And>y z. y \<in> R \<Longrightarrow> (y, z) \<in> E \<Longrightarrow> z \<in> R \<and> rank z < rank y"
    and x: "x \<in> R"
  shows "(x, x) \<notin> E\<^sup>+"
proof
  assume xx: "(x, x) \<in> E\<^sup>+"
  have "y \<in> R \<and> rank y < rank x" if "(x, y) \<in> E\<^sup>+" for y
    using that
  proof (induction rule: trancl_induct)
    case (base y)
    with step [of x y] x show ?case by simp
  next
    case (step y z)
    with assms(1) [of y z] show ?case by auto
  qed
  from this [OF xx] show False by simp
qed

lemmas store_eval = example_store_def loadProfile_def profilePath_def replaceAll_def
  replaceAll_from.simps readFile_def relations_of_def profile_targets_def Let_def

lemma diamond_edges:
  "(''a'', z) \<in> inherits diamond_store \<longleftrightarrow> z = ''b'' \<or> z = ''c''"
  "(''b'', z) \<in> inherits diamond_store \<longleftrightarrow> z = ''d''"
  "(''c'', z) \<in> inherits diamond_store \<longleftrightarrow> z = ''d''"
  "(''d'', z) \<in> inherits diamond_store \<longleftrightarrow> False"
  by (simp_all add: inherits_def diamond_store_def store_eval)

lemma diamond_loadable:
  "\<exists>p. loadProfile diamond_store ''a'' = Inr p"
  "\<exists>p. loadProfile diamond_store ''b'' = Inr p"
  "\<exists>p. loadProfile diamond_store ''c'' = Inr p"
  "\<exists>p. loadProfile diamond_store ''d'' = Inr p"
  by (simp_all add: diamond_store_def store_eval)



text \<open>
  C2. Take a store and entry identifiers such that every profile that can be reached from the
  entries along the inheritance edges loads, and no inheritance cycle can be reached from them
  (so, in particular, an acyclic graph). Then \<open>resolveProfiles\<close> returns a list; no identifier
  occurs twice in it, whatever the number of paths or entries that lead to it; every entry is
  in it; and for every profile of the list, each of its ancestors stands at a strictly smaller
  index.
\<close>

theorem resolveProfiles_acyclic:
  assumes closed: "\<forall>e \<in> set entries. \<forall>x. (e, x) \<in> (inherits store)\<^sup>* \<longrightarrow> (\<exists>p. loadProfile store x = Inr p)"
    and acyclic: "\<forall>e \<in> set entries. \<forall>x. (e, x) \<in> (inherits store)\<^sup>* \<longrightarrow> (x, x) \<notin> (inherits store)\<^sup>+"
  shows "\<exists>ps. resolveProfiles store entries = Inr ps
      \<and> distinct (map profile_id ps)
      \<and> set entries \<subseteq> set (map profile_id ps)
      \<and> (\<forall>child \<in> set (map profile_id ps). \<forall>ancestor.
            (child, ancestor) \<in> (inherits store)\<^sup>+ \<longrightarrow>
            (\<exists>i j. i < j \<and> j < length ps \<and> profile_id (ps ! i) = ancestor \<and> profile_id (ps ! j) = child))"
proof (cases "resolveProfiles store entries")
  case (Inl err)
  let ?init = "\<lparr>resolved = [], visiting = {}, visited = {}\<rparr>"
  from Inl have v: "visit_entries store entries ?init = Inl err"
    by (auto simp: resolveProfiles_def split: sum.splits)
  from visit_entries_error_is_cycle [OF v closed] obtain m where "err = CycleError m" ..
  with v have "visit_entries store entries ?init = Inl (CycleError m)" by simp
  from visit_entries_cycle_sound [OF this] obtain c e where "(c, c) \<in> (inherits store)\<^sup>+"
    "e \<in> set entries" "(e, c) \<in> (inherits store)\<^sup>*" by auto
  with acyclic show ?thesis by blast
next
  case (Inr ps)
  from resolveProfiles_Inr [OF Inr] obtain st where ps: "resolved st = ps"
    and inv: "resolve_inv store st" and ent: "set entries \<subseteq> visited st" by blast
  from ps have ids: "resolved_ids st = map profile_id ps" by (simp add: resolved_ids_def)
  from inv have dist: "distinct (map profile_id ps)" and vis: "set (map profile_id ps) = visited st"
    by (simp_all add: resolve_inv_def ids)
  have ord: "\<exists>i j. i < j \<and> j < length ps \<and> profile_id (ps ! i) = ancestor \<and> profile_id (ps ! j) = child"
    if child: "child \<in> set (map profile_id ps)" and anc: "(child, ancestor) \<in> (inherits store)\<^sup>+"
    for child ancestor
  proof -
    from child vis have "child \<in> visited st" by simp
    from resolve_inv_trancl [OF inv this anc] have "before (map profile_id ps) ancestor child"
      by (simp add: ids)
    from before_index [OF this child] obtain i j where "i < j" "j < length ps"
      "map profile_id ps ! i = ancestor" "map profile_id ps ! j = child" by auto
    then have "i < j \<and> j < length ps \<and> profile_id (ps ! i) = ancestor \<and> profile_id (ps ! j) = child"
      by simp
    then show ?thesis by blast
  qed
  from Inr dist ent vis ord show ?thesis by blast
qed

theorem resolveProfiles_acyclic_witness:
  "\<exists>ps. resolveProfiles diamond_store [''a''] = Inr ps
     \<and> distinct (map profile_id ps)
     \<and> (\<exists>i j. i < j \<and> j < length ps \<and> profile_id (ps ! i) = ''d'' \<and> profile_id (ps ! j) = ''b'')
     \<and> (\<exists>i j. i < j \<and> j < length ps \<and> profile_id (ps ! i) = ''d'' \<and> profile_id (ps ! j) = ''c'')"
proof -
  let ?R = "{''a'', ''b'', ''c'', ''d''}"
  let ?rank = "\<lambda>x. if x = ''a'' then 3 else if x = ''d'' then 1 else (2::nat)"
  have step: "z \<in> ?R \<and> ?rank z < ?rank y" if "y \<in> ?R" "(y, z) \<in> inherits diamond_store" for y z
    using that by (auto simp: diamond_edges)
  have reach: "x \<in> ?R" if "(''a'', x) \<in> (inherits diamond_store)\<^sup>*" for x
    using _ _ that by (rule reachable_within) (use step in auto)
  have closed: "\<forall>e \<in> set [''a'']. \<forall>x. (e, x) \<in> (inherits diamond_store)\<^sup>*
      \<longrightarrow> (\<exists>p. loadProfile diamond_store x = Inr p)"
    using reach diamond_loadable by auto
  have acyclic: "\<forall>e \<in> set [''a'']. \<forall>x. (e, x) \<in> (inherits diamond_store)\<^sup>*
      \<longrightarrow> (x, x) \<notin> (inherits diamond_store)\<^sup>+"
  proof (intro ballI allI impI)
    fix e x assume "e \<in> set [''a'']" "(e, x) \<in> (inherits diamond_store)\<^sup>*"
    then have "x \<in> ?R" using reach by simp
    with step show "(x, x) \<notin> (inherits diamond_store)\<^sup>+"
      by (rule ranked_no_cycle [where rank = ?rank and R = ?R])
  qed
  from resolveProfiles_acyclic [OF closed acyclic] obtain ps where
    res: "resolveProfiles diamond_store [''a''] = Inr ps" and dist: "distinct (map profile_id ps)"
    and ent: "set [''a''] \<subseteq> set (map profile_id ps)"
    and ord: "\<forall>child \<in> set (map profile_id ps). \<forall>ancestor.
            (child, ancestor) \<in> (inherits diamond_store)\<^sup>+ \<longrightarrow>
            (\<exists>i j. i < j \<and> j < length ps \<and> profile_id (ps ! i) = ancestor \<and> profile_id (ps ! j) = child)"
    by (elim exE conjE)
  have ab: "(''a'', ''b'') \<in> (inherits diamond_store)\<^sup>+" and ac: "(''a'', ''c'') \<in> (inherits diamond_store)\<^sup>+"
    and bd: "(''b'', ''d'') \<in> (inherits diamond_store)\<^sup>+" and cd: "(''c'', ''d'') \<in> (inherits diamond_store)\<^sup>+"
    by (simp_all add: r_into_trancl diamond_edges)
  from ent have a: "''a'' \<in> set (map profile_id ps)" by simp
  have mem: "x \<in> set (map profile_id ps)"
    if "\<exists>i j. i < j \<and> j < length ps \<and> profile_id (ps ! i) = x \<and> profile_id (ps ! j) = y" for x y
  proof -
    from that obtain i j where "i < j" "j < length ps" "profile_id (ps ! i) = x" by (elim exE conjE)
    then have "i < length (map profile_id ps) \<and> map profile_id ps ! i = x" by simp
    then show ?thesis by (metis nth_mem)
  qed
  from ord [rule_format, OF a ab] have b: "''b'' \<in> set (map profile_id ps)" by (rule mem)
  from ord [rule_format, OF a ac] have c: "''c'' \<in> set (map profile_id ps)" by (rule mem)
  from res dist ord [rule_format, OF b bd] ord [rule_format, OF c cd] show ?thesis
    by (intro exI [of _ ps] conjI)
qed



end
